theory Spec2Isabelle
  imports Main
begin

section \<open>The calendar the package builds on\<close>

text \<open>
  The package \<open>timeofday\<close> (file \<open>time.go\<close>) leaves all calendar work to Go's standard
  \<open>time\<close> package. That library is modelled here for locations with one fixed offset
  from UTC (\<open>time.UTC\<close>, \<open>time.FixedZone\<close>): a location is its offset in seconds east
  of UTC, and a \<open>time.Time\<close> is an instant (Unix seconds and nanoseconds) together with
  the location it is shown in. Go's \<open>int\<close> is modelled by \<open>int\<close>; none of the
  arithmetic of \<open>time.go\<close> can leave the 64-bit range (hours and minutes are range
  checked before they are used).
\<close>

datatype Location = FixedZone int

abbreviation UTC :: Location where
  "UTC \<equiv> FixedZone 0"

fun zoneOffset :: "Location \<Rightarrow> int" where
  "zoneOffset (FixedZone off) = off"

record Time =
  unixSec :: int
  nsec :: int
  location :: Location

definition secondsPerDay :: int where
  "secondsPerDay = 86400"

text \<open>Days from 0001-01-01 to 1970-01-01 in the proleptic Gregorian calendar.\<close>

definition unixEpochDays :: int where
  "unixEpochDays = 719162"

text \<open>
  \<open>norm(hi, lo, base)\<close> of \<open>time.Date\<close>: carries \<open>lo\<close> into \<open>hi\<close> so that
  \<open>0 \<le> lo < base\<close>.
\<close>

definition norm :: "int \<Rightarrow> int \<Rightarrow> int \<Rightarrow> int \<times> int" where
  "norm hi lo base = (hi + lo div base, lo mod base)"

definition isLeap :: "int \<Rightarrow> bool" where
  "isLeap year = (year mod 4 = 0 \<and> (year mod 100 \<noteq> 0 \<or> year mod 400 = 0))"

definition daysBefore :: "int list" where
  "daysBefore = [0, 31, 59, 90, 120, 151, 181, 212, 243, 273, 304, 334, 365]"

text \<open>
  \<open>daysSinceEpoch\<close>, counted from year 1: the days before 1 January of \<open>year\<close>,
  by 400-, 100- and 4-year cycles.
\<close>

definition daysSinceEpoch :: "int \<Rightarrow> int" where
  "daysSinceEpoch year =
     (let y = year - 1;
          n400 = y div 400; y1 = y - 400 * n400;
          n100 = y1 div 100; y2 = y1 - 100 * n100;
          n4 = y2 div 4; y3 = y2 - 4 * n4
      in 146097 * n400 + 36524 * n100 + 1461 * n4 + 365 * y3)"

text \<open>
  \<open>time.Date(year, month, day, hour, min, sec, nsec, loc)\<close>. Values out of range are
  normalised (a day past the end of the month runs into the next month); the wall clock
  reading is then taken in \<open>loc\<close>.
\<close>

definition Date :: "int \<Rightarrow> int \<Rightarrow> int \<Rightarrow> int \<Rightarrow> int \<Rightarrow> int \<Rightarrow> int \<Rightarrow> Location \<Rightarrow> Time" where
  "Date year month day hour mins sec ns l =
     (let (year1, m) = norm year (month - 1) 12;
          month1 = m + 1;
          (sec1, ns1) = norm sec ns 1000000000;
          (min1, sec2) = norm mins sec1 60;
          (hour1, min2) = norm hour min1 60;
          (day1, hour2) = norm day hour1 24;
          d = daysSinceEpoch year1 + daysBefore ! nat (month1 - 1)
              + (if isLeap year1 \<and> month1 \<ge> 3 then 1 else 0)
              + (day1 - 1);
          wall = d * secondsPerDay + hour2 * 3600 + min2 * 60 + sec2
      in \<lparr> unixSec = wall - unixEpochDays * secondsPerDay - zoneOffset l,
           nsec = ns1,
           location = l \<rparr>)"

text \<open>\<open>t.abs()\<close>: the seconds of the wall clock reading of \<open>t\<close> in its own location.\<close>

definition abs_sec :: "Time \<Rightarrow> int" where
  "abs_sec t = unixSec t + zoneOffset (location t) + unixEpochDays * secondsPerDay"

text \<open>
  \<open>absDate\<close>: year, month and day of the month of a count of seconds since year 1. It
  works in two steps, written here as two functions. The first cuts off the 400-year,
  100-year, 4-year and 1-year cycles and leaves the year and the zero-based day in it;
  the last cycle of each kind is a day longer, so a count of 4 is made 3. The second
  finds the month: it estimates it as if every month had 31 days and corrects the
  estimate by one where needed, with 29 February handled first.
\<close>

definition yearDay :: "int \<Rightarrow> int \<times> int" where
  "yearDay d =
     (let n400 = d div 146097; d1 = d - 146097 * n400;
          n100 = d1 div 36524; n100' = n100 - n100 div 4; d2 = d1 - 36524 * n100';
          n4 = d2 div 1461; d3 = d2 - 1461 * n4;
          n1 = d3 div 365; n1' = n1 - n1 div 4; yday = d3 - 365 * n1'
      in (400 * n400 + 100 * n100' + 4 * n4 + n1' + 1, yday))"

definition monthDay :: "bool \<Rightarrow> int \<Rightarrow> int \<times> int" where
  "monthDay leap yday =
     (if leap \<and> yday = 31 + 29 - 1 then (2, 29)
      else
        (let day = (if leap \<and> yday > 31 + 29 - 1 then yday - 1 else yday);
             month = day div 31;
             next = daysBefore ! nat (month + 1)
         in if day \<ge> next then (month + 2, day - next + 1)
            else (month + 1, day - daysBefore ! nat month + 1)))"

definition absDate :: "int \<Rightarrow> int \<times> int \<times> int" where
  "absDate a =
     (case yearDay (a div secondsPerDay) of (year, yday) \<Rightarrow>
        case monthDay (isLeap year) yday of (month, day) \<Rightarrow> (year, month, day))"

definition Time_Year :: "Time \<Rightarrow> int" where
  "Time_Year t = fst (absDate (abs_sec t))"

definition Time_Month :: "Time \<Rightarrow> int" where
  "Time_Month t = fst (snd (absDate (abs_sec t)))"

definition Time_Day :: "Time \<Rightarrow> int" where
  "Time_Day t = snd (snd (absDate (abs_sec t)))"

definition Time_Hour :: "Time \<Rightarrow> int" where
  "Time_Hour t = (abs_sec t mod secondsPerDay) div 3600"

definition Time_Minute :: "Time \<Rightarrow> int" where
  "Time_Minute t = (abs_sec t mod 3600) div 60"

text \<open>\<open>t.Before(u)\<close> and \<open>t.Add(d)\<close> compare and move instants; the location plays no part.\<close>

definition Before :: "Time \<Rightarrow> Time \<Rightarrow> bool" where
  "Before t u = (unixSec t < unixSec u \<or> (unixSec t = unixSec u \<and> nsec t < nsec u))"

definition AddSeconds :: "Time \<Rightarrow> int \<Rightarrow> Time" where
  "AddSeconds t s = t\<lparr>unixSec := unixSec t + s\<rparr>"

section \<open>The time-of-day value\<close>

record TimeOfDay =
  hour :: int
  minute :: int
  loc :: Location

text \<open>
  The errors of the package, one constructor for each message:
  \<^item> \<open>ErrHourRange\<close>: Hour integer must be between 0 and 24, inclusive;
  \<^item> \<open>ErrMinuteRange\<close>: Minute integer must be between 0 and 59, inclusive;
  \<^item> \<open>ErrInvalidRune c valid\<close>: Invalid rune \<open>c\<close>: Expected one of \<open>valid\<close>;
  \<^item> \<open>ErrPosition pos err\<close>: Parse error at position \<open>pos\<close> (zero-indexed): \<open>err\<close>;
  \<^item> \<open>ErrExtraChar c\<close>: Extra character \<open>c\<close>: Expected end;
  \<^item> \<open>ErrEOFNumber\<close>: Unexpected end of input: Expected number;
  \<^item> \<open>ErrEOFM\<close>: Unexpected end of input: Expected 'M';
  \<^item> \<open>ErrAtoiHour\<close>, \<open>ErrAtoiMinute\<close>: Could not parse hour (minute) as integer;
  \<^item> \<open>ErrMeridiemHourZero\<close>: Cannot have meridiem and hour value of 0;
  \<^item> \<open>ErrPMOver12\<close>: Cannot have hour greater than 12 with meridiem PM;
  \<^item> \<open>ErrUnknownMeridiem s\<close>: Unknown meridiem spec \<open>s\<close>.
\<close>

datatype error =
    ErrHourRange
  | ErrMinuteRange
  | ErrInvalidRune char "char list"
  | ErrPosition nat error
  | ErrExtraChar char
  | ErrEOFNumber
  | ErrEOFM
  | ErrAtoiHour
  | ErrAtoiMinute
  | ErrMeridiemHourZero
  | ErrPMOver12
  | ErrUnknownMeridiem string

text \<open>
  \<open>New(hour, minute, loc)\<close>. A nil \<open>loc\<close> is \<open>None\<close>; it is replaced by \<open>time.Local\<close>,
  the process-wide local zone, which is the first argument \<open>lcl\<close> here. The result
  \<open>(nil, err)\<close> is \<open>Inl err\<close>. The remainder \<open>hour %= 24\<close> is taken of an hour that
  is not negative, where Go's \<open>%\<close> and \<open>mod\<close> agree.
\<close>

definition New :: "Location \<Rightarrow> int \<Rightarrow> int \<Rightarrow> Location option \<Rightarrow> error + TimeOfDay" where
  "New lcl h m l =
     (if h < 0 \<or> h > 24 then Inl ErrHourRange
      else let h' = h mod 24 in
        if m < 0 \<or> m > 59 then Inl ErrMinuteRange
        else Inr \<lparr> hour = h', minute = m,
                   loc = (case l of None \<Rightarrow> lcl | Some z \<Rightarrow> z) \<rparr>)"

definition Hour :: "TimeOfDay \<Rightarrow> int" where
  "Hour t = Time_Hour (Date 2006 1 2 (hour t) (minute t) 0 0 (loc t))"

definition Minute :: "TimeOfDay \<Rightarrow> int" where
  "Minute t = Time_Minute (Date 2006 1 2 (hour t) (minute t) 0 0 (loc t))"

definition TimeOfDay_Location :: "TimeOfDay \<Rightarrow> Location" where
  "TimeOfDay_Location t = loc t"

definition NextAfter :: "TimeOfDay \<Rightarrow> Time \<Rightarrow> Time" where
  "NextAfter t after =
     (let ret = Date (Time_Year after) (Time_Month after) (Time_Day after)
                  (hour t) (minute t) 0 0 (loc t)
      in if Before ret after
         then Date (Time_Year after) (Time_Month after) (Time_Day after + 1)
                (hour t) (minute t) 0 0 (loc t)
         else ret)"

text \<open>\<open>Next()\<close> reads the clock; the instant read is the argument \<open>now\<close>.\<close>

definition Next :: "Time \<Rightarrow> TimeOfDay \<Rightarrow> Time" where
  "Next now t = NextAfter t now"

section \<open>The tokenizer\<close>

text \<open>
  A Go string is modelled by the list of its runes, each a \<open>char\<close> read as a code point
  below 256. \<open>strings.ToUpper\<close> is modelled on the letters \<open>a\<close> to \<open>z\<close>; every other
  character is kept (the scanner accepts ASCII characters only, so what Go makes of a
  letter outside ASCII can change no more than the rune an error reports).
  \<open>strings.TrimSpace\<close> removes the leading and trailing characters that
  \<open>unicode.IsSpace\<close> accepts: tab, line feed, vertical tab, form feed, carriage return,
  space, U+0085 and U+00A0.
\<close>

definition toUpperRune :: "char \<Rightarrow> char" where
  "toUpperRune c =
     (if 97 \<le> (of_char c :: nat) \<and> (of_char c :: nat) \<le> 122
      then char_of ((of_char c :: nat) - 32) else c)"

definition ToUpper :: "string \<Rightarrow> string" where
  "ToUpper s = map toUpperRune s"

definition isSpace :: "char \<Rightarrow> bool" where
  "isSpace c = (let n = (of_char c :: nat) in (9 \<le> n \<and> n \<le> 13) \<or> n = 32 \<or> n = 133 \<or> n = 160)"

definition TrimSpace :: "string \<Rightarrow> string" where
  "TrimSpace s = rev (dropWhile isSpace (rev (dropWhile isSpace s)))"

text \<open>
  The struct \<open>timeSpecTokens\<close>; its fields \<open>Hour\<close>, \<open>Minute\<close> and \<open>Meridiem\<close> carry
  the prefix \<open>tok\<close> here, since \<open>Hour\<close> and \<open>Minute\<close> are also methods of \<open>TimeOfDay\<close>.
\<close>

record timeSpecTokens =
  tokHour :: string
  tokMinute :: string
  tokMeridiem :: string

definition noTokens :: timeSpecTokens where
  "noTokens = \<lparr> tokHour = [], tokMinute = [], tokMeridiem = [] \<rparr>"

text \<open>\<open>validRune(c, valid...)\<close>: \<open>None\<close> is the nil error.\<close>

definition validRune :: "char \<Rightarrow> char list \<Rightarrow> error option" where
  "validRune c valid = (if c \<in> set valid then None else Some (ErrInvalidRune c valid))"

definition wrapErrPosition :: "error \<Rightarrow> nat \<Rightarrow> error" where
  "wrapErrPosition err position = ErrPosition position err"

definition digitRunes :: "char list" where
  "digitRunes = ''0123456789''"

text \<open>
  The \<open>for\<close> loop of \<open>tokenizeTimeSpec\<close>. The arguments are the loop's variables
  \<open>state\<close>, \<open>pos\<close> and \<open>tokens\<close>, and the runes from \<open>pos\<close> on. The loop ends with an
  error, or at the end of the input with the state and the tokens reached. A
  \<open>continue\<close> that does not move \<open>pos\<close> is a call on the same runes.
\<close>

function scan :: "nat \<Rightarrow> nat \<Rightarrow> timeSpecTokens \<Rightarrow> char list \<Rightarrow> error + (nat \<times> timeSpecTokens)" where
  "scan state pos tokens [] = Inr (state, tokens)"
| "scan state pos tokens (c # cs) =
     (if state = 0 then
        (case validRune c digitRunes of
           Some err \<Rightarrow> Inl (wrapErrPosition err pos)
         | None \<Rightarrow> scan 1 (pos + 1) (tokens\<lparr>tokHour := [c]\<rparr>) cs)
      else if state = 1 then
        (case validRune c (digitRunes @ '': AP'') of
           Some err \<Rightarrow> Inl (wrapErrPosition err pos)
         | None \<Rightarrow>
             if c = CHR '':'' \<or> c = CHR '' '' \<or> c = CHR ''A'' \<or> c = CHR ''P''
             then scan 2 pos tokens (c # cs)
             else scan 2 (pos + 1) (tokens\<lparr>tokHour := tokHour tokens @ [c]\<rparr>) cs)
      else if state = 2 then
        (case validRune c '': AP'' of
           Some err \<Rightarrow> Inl (wrapErrPosition err pos)
         | None \<Rightarrow>
             if c \<noteq> CHR '':'' then scan 5 pos tokens (c # cs)
             else scan 3 (pos + 1) tokens cs)
      else if state = 3 then
        (case validRune c ''012345'' of
           Some err \<Rightarrow> Inl (wrapErrPosition err pos)
         | None \<Rightarrow> scan 4 (pos + 1) (tokens\<lparr>tokMinute := [c]\<rparr>) cs)
      else if state = 4 then
        (case validRune c digitRunes of
           Some err \<Rightarrow> Inl (wrapErrPosition err pos)
         | None \<Rightarrow> scan 5 (pos + 1) (tokens\<lparr>tokMinute := tokMinute tokens @ [c]\<rparr>) cs)
      else if state = 5 then
        (case validRune c '' AP'' of
           Some err \<Rightarrow> Inl (wrapErrPosition err pos)
         | None \<Rightarrow>
             if c = CHR '' '' then scan 5 (pos + 1) tokens cs
             else scan 6 (pos + 1) (tokens\<lparr>tokMeridiem := tokMeridiem tokens @ [c]\<rparr>) cs)
      else if state = 6 then
        (case validRune c ''M'' of
           Some err \<Rightarrow> Inl (wrapErrPosition err pos)
         | None \<Rightarrow> scan 7 (pos + 1) (tokens\<lparr>tokMeridiem := tokMeridiem tokens @ ''M''\<rparr>) cs)
      else if state = 7 then Inl (ErrExtraChar c)
      else scan (state + 1) (pos + 1) tokens cs)"
  by pat_completeness auto
termination
  by (relation "measure (\<lambda>(state, pos, tokens, rs). 8 * length rs + (7 - state))") auto

text \<open>The \<open>switch\<close> after the loop: the states in which the input may not end.\<close>

definition atEnd :: "nat \<times> timeSpecTokens \<Rightarrow> error + timeSpecTokens" where
  "atEnd r =
     (case r of (state, tokens) \<Rightarrow>
        if state = 0 \<or> state = 3 \<or> state = 4 then Inl ErrEOFNumber
        else if state = 6 then Inl ErrEOFM
        else Inr tokens)"

definition tokenizeRunes :: "char list \<Rightarrow> error + timeSpecTokens" where
  "tokenizeRunes runes =
     (case scan 0 0 noTokens runes of Inl err \<Rightarrow> Inl err | Inr r \<Rightarrow> atEnd r)"

definition tokenizeTimeSpec :: "string \<Rightarrow> error + timeSpecTokens" where
  "tokenizeTimeSpec spec = tokenizeRunes (TrimSpace (ToUpper spec))"

section \<open>Resolving the tokens\<close>

text \<open>
  \<open>strconv.Atoi\<close>: an optional sign, then one or more decimal digits, and a value
  that fits 64 bits; \<open>None\<close> is its error.
\<close>

definition isDigit :: "char \<Rightarrow> bool" where
  "isDigit c = (48 \<le> (of_char c :: nat) \<and> (of_char c :: nat) \<le> 57)"

definition digitVal :: "char \<Rightarrow> int" where
  "digitVal c = int (of_char c) - 48"

definition decimal :: "string \<Rightarrow> int" where
  "decimal s = foldl (\<lambda>n ch. n * 10 + digitVal ch) 0 s"

definition Atoi :: "string \<Rightarrow> int option" where
  "Atoi s =
     (let neg = (s \<noteq> [] \<and> hd s = CHR ''-'');
          ds = (if s \<noteq> [] \<and> (hd s = CHR ''-'' \<or> hd s = CHR ''+'') then tl s else s);
          n = (if neg then - decimal ds else decimal ds)
      in if ds = [] \<or> \<not> list_all isDigit ds then None
         else if n < - (2 ^ 63) \<or> n > 2 ^ 63 - 1 then None
         else Some n)"

text \<open>The method \<open>Parse\<close> of \<open>timeSpecTokens\<close>.\<close>

definition Parse :: "Location \<Rightarrow> timeSpecTokens \<Rightarrow> Location option \<Rightarrow> error + TimeOfDay" where
  "Parse lcl tokens l =
     (case Atoi (tokHour tokens) of
        None \<Rightarrow> Inl ErrAtoiHour
      | Some h \<Rightarrow>
          (case Atoi (tokMinute tokens) of
             None \<Rightarrow> Inl ErrAtoiMinute
           | Some m \<Rightarrow>
               if tokMeridiem tokens \<noteq> [] \<and> h = 0 then Inl ErrMeridiemHourZero
               else if tokMeridiem tokens = [] then New lcl h m l
               else if tokMeridiem tokens = ''AM'' then
                 New lcl (if h = 12 then 0 else h) m l
               else if tokMeridiem tokens = ''PM'' then
                 (if h > 12 then Inl ErrPMOver12
                  else if h \<noteq> 12 then New lcl (h + 12) m l
                  else New lcl h m l)
               else Inl (ErrUnknownMeridiem (tokMeridiem tokens))))"

definition NewFromString :: "Location \<Rightarrow> string \<Rightarrow> Location option \<Rightarrow> error + TimeOfDay" where
  "NewFromString lcl timeSpec l =
     (case tokenizeTimeSpec timeSpec of
        Inl err \<Rightarrow> Inl err
      | Inr tokens \<Rightarrow> Parse lcl tokens l)"

section \<open>The shape of time specifications\<close>

text \<open>
  The vocabulary of the statements about the tokenizer. An hour token is one or two
  digits; a minute token is a digit from 0 to 5 and a digit; a meridiem is \<open>AM\<close> or
  \<open>PM\<close>. A token triple is well formed when its hour is an hour token and its minute and
  its meridiem are each either empty or of their kind. \<open>render tokens n\<close> is the text
  that spells the tokens: the hour, a colon and the minute when there is a minute,
  \<open>n\<close> spaces, and the meridiem.
\<close>

definition isHourToken :: "string \<Rightarrow> bool" where
  "isHourToken hp = ((length hp = 1 \<or> length hp = 2) \<and> set hp \<subseteq> set digitRunes)"

definition isMinuteToken :: "string \<Rightarrow> bool" where
  "isMinuteToken mp =
     (length mp = 2 \<and> mp ! 0 \<in> set ''012345'' \<and> mp ! 1 \<in> set digitRunes)"

definition isMeridiem :: "string \<Rightarrow> bool" where
  "isMeridiem me = (me = ''AM'' \<or> me = ''PM'')"

definition wellFormed :: "timeSpecTokens \<Rightarrow> bool" where
  "wellFormed tokens =
     (isHourToken (tokHour tokens) \<and>
      (tokMinute tokens = [] \<or> isMinuteToken (tokMinute tokens)) \<and>
      (tokMeridiem tokens = [] \<or> isMeridiem (tokMeridiem tokens)))"

definition render :: "timeSpecTokens \<Rightarrow> nat \<Rightarrow> char list" where
  "render tokens n =
     tokHour tokens
     @ (if tokMinute tokens = [] then [] else CHR '':'' # tokMinute tokens)
     @ replicate n CHR '' ''
     @ tokMeridiem tokens"

text \<open>
  The loop of the tokenizer entered in a given state, followed by the switch at the end
  of the input; \<open>tokenizeRunes\<close> is \<open>scanEnd 0 0 noTokens\<close>.
\<close>

definition scanEnd :: "nat \<Rightarrow> nat \<Rightarrow> timeSpecTokens \<Rightarrow> char list \<Rightarrow> error + timeSpecTokens" where
  "scanEnd state pos tokens runes =
     (case scan state pos tokens runes of Inl err \<Rightarrow> Inl err | Inr r \<Rightarrow> atEnd r)"


section \<open>Construction and the accessors\<close>

lemma daysSinceEpoch_2006: "daysSinceEpoch 2006 = 732311"
  by (simp add: daysSinceEpoch_def Let_def)

text \<open>
  The accessors \<open>Hour\<close> and \<open>Minute\<close> build 2 January 2006 with the stored hour and
  minute and read the wall clock back. For a stored hour and minute in range nothing is
  carried, and the reading is day 732312 since year 1 plus the hour and the minute.
\<close>

lemma Date_2006_wall:
  assumes "0 \<le> h" "h \<le> 23" "0 \<le> m" "m \<le> 59"
  shows "abs_sec (Date 2006 1 2 h m 0 0 l) = 732312 * 86400 + h * 3600 + m * 60"
proof -
  have n1: "norm m 0 60 = (m, 0)" by (simp add: norm_def)
  have n2: "norm h m 60 = (h, m)" using assms by (simp add: norm_def)
  have n3: "norm 2 h 24 = (2, h)" using assms by (simp add: norm_def)
  have n4: "norm 2006 (1 - 1) 12 = (2006, 0)" by (simp add: norm_def)
  have n5: "norm 0 0 1000000000 = (0, 0)" by (simp add: norm_def)
  have nl: "\<not> isLeap 2006" by (simp add: isLeap_def)
  have db: "daysBefore ! nat (0 + 1 - 1) = 0" by (simp add: daysBefore_def)
  have "Date 2006 1 2 h m 0 0 l =
          \<lparr> unixSec = (732311 + 0 + 0 + (2 - 1)) * secondsPerDay + h * 3600 + m * 60 + 0
                       - unixEpochDays * secondsPerDay - zoneOffset l,
            nsec = 0, location = l \<rparr>"
    unfolding Date_def n1 n2 n3 n4 n5 Let_def prod.case daysSinceEpoch_2006 db
    using nl by simp
  then show ?thesis
    by (simp add: abs_sec_def secondsPerDay_def)
qed

lemma wall_hour:
  assumes "0 \<le> h" "h \<le> 23" "0 \<le> m" "m \<le> 59"
  shows "((732312 * 86400 + h * 3600 + m * 60) mod 86400) div 3600 = (h::int)"
proof -
  have "(732312 * 86400 + (h * 3600 + m * 60)) mod 86400 = (h * 3600 + m * 60) mod 86400"
    by (rule mod_mult_self3)
  moreover have "(h * 3600 + m * 60) mod 86400 = h * 3600 + m * 60"
    using assms by (intro mod_pos_pos_trivial) linarith+
  moreover have "(m * 60 + h * 3600) div 3600 = h + m * 60 div 3600"
    by (rule div_mult_self1) simp
  moreover have "m * 60 div 3600 = 0"
    using assms by (intro div_pos_pos_trivial) linarith+
  ultimately show ?thesis by (simp add: add.commute add.assoc)
qed

lemma wall_minute:
  assumes "0 \<le> m" "m \<le> 59"
  shows "((732312 * 86400 + h * 3600 + m * 60) mod 3600) div 60 = (m::int)"
proof -
  have "732312 * 86400 + h * 3600 + m * 60 = m * 60 + (732312 * 24 + h) * 3600"
    by simp
  then have "(732312 * 86400 + h * 3600 + m * 60) mod 3600 = (m * 60) mod 3600"
    by (metis mod_mult_self1)
  moreover have "(m * 60) mod 3600 = m * 60"
    using assms by (intro mod_pos_pos_trivial) linarith+
  ultimately show ?thesis by simp
qed

lemma Time_Hour_Date_2006:
  assumes "0 \<le> h" "h \<le> 23" "0 \<le> m" "m \<le> 59"
  shows "Time_Hour (Date 2006 1 2 h m 0 0 l) = h"
  unfolding Time_Hour_def Date_2006_wall [OF assms] secondsPerDay_def
  by (rule wall_hour [OF assms])

lemma Time_Minute_Date_2006:
  assumes "0 \<le> h" "h \<le> 23" "0 \<le> m" "m \<le> 59"
  shows "Time_Minute (Date 2006 1 2 h m 0 0 l) = m"
  unfolding Time_Minute_def Date_2006_wall [OF assms]
  by (rule wall_minute [OF assms(3,4)])

lemma New_in_range:
  assumes "0 \<le> h" "h \<le> 23" "0 \<le> m" "m \<le> 59"
  shows "New lcl h m z =
           Inr \<lparr> hour = h, minute = m, loc = (case z of None \<Rightarrow> lcl | Some l \<Rightarrow> l) \<rparr>"
  using assms by (simp add: New_def)

lemma New_hour_24:
  assumes "0 \<le> m" "m \<le> 59"
  shows "New lcl 24 m z =
           Inr \<lparr> hour = 0, minute = m, loc = (case z of None \<Rightarrow> lcl | Some l \<Rightarrow> l) \<rparr>"
  using assms by (simp add: New_def)

text \<open>
  Claim C3. For every hour \<open>h\<close> from 0 to 23, minute \<open>m\<close> from 0 to 59 and zone \<open>z\<close>
  (a fixed-offset location, or none, which stands for the local zone), \<open>New h m z\<close>
  succeeds, and the accessors \<open>Hour\<close> and \<open>Minute\<close> of the value it returns give back
  \<open>h\<close> and \<open>m\<close>; and \<open>Hour\<close> of \<open>New 24 0 z\<close> is 0.
\<close>

theorem New_Hour_Minute_roundtrip:
  "(0 \<le> h \<and> h \<le> 23 \<and> 0 \<le> m \<and> m \<le> 59 \<longrightarrow>
      (\<exists>t. New lcl h m z = Inr t \<and> Hour t = h \<and> Minute t = m)) \<and>
   (\<exists>t. New lcl 24 0 z = Inr t \<and> Hour t = 0)"
proof (intro conjI impI)
  assume a: "0 \<le> h \<and> h \<le> 23 \<and> 0 \<le> m \<and> m \<le> 59"
  then show "\<exists>t. New lcl h m z = Inr t \<and> Hour t = h \<and> Minute t = m"
    by (simp add: New_in_range Hour_def Minute_def Time_Hour_Date_2006 Time_Minute_Date_2006)
next
  show "\<exists>t. New lcl 24 0 z = Inr t \<and> Hour t = 0"
    by (simp add: New_hour_24 Hour_def Time_Hour_Date_2006)
qed

theorem New_Hour_Minute_roundtrip_witness:
  "\<exists>t. New UTC 15 9 (Some (FixedZone (- 18000))) = Inr t \<and> Hour t = 15 \<and> Minute t = 9"
  using New_Hour_Minute_roundtrip [of 15 9 UTC "Some (FixedZone (- 18000))"] by simp

lemmas tokenize_eval =
  tokenizeTimeSpec_def tokenizeRunes_def ToUpper_def toUpperRune_def TrimSpace_def isSpace_def
  noTokens_def validRune_def wrapErrPosition_def digitRunes_def atEnd_def

lemmas parse_eval =
  NewFromString_def tokenize_eval Parse_def Atoi_def isDigit_def decimal_def digitVal_def
  New_def Let_def

text \<open>
  Claim C5. \<open>New hour minute zone\<close> fails exactly when the hour is outside 0 to 24 or
  the minute is outside 0 to 59. The error names the bound that is violated: the hour's
  when the hour is out of range, the minute's when only the minute is. Hour 24 is
  accepted and stored as 0. A failure is an error alone, with no value beside it; so
  is \<open>New 25 0 zone\<close>.
\<close>

theorem New_range_error:
  "(isl (New lcl h m z) \<longleftrightarrow> (h < 0 \<or> h > 24 \<or> m < 0 \<or> m > 59)) \<and>
   (h < 0 \<or> h > 24 \<longrightarrow> New lcl h m z = Inl ErrHourRange) \<and>
   (0 \<le> h \<and> h \<le> 24 \<and> (m < 0 \<or> m > 59) \<longrightarrow> New lcl h m z = Inl ErrMinuteRange) \<and>
   (0 \<le> m \<and> m \<le> 59 \<longrightarrow> (\<exists>t. New lcl 24 m z = Inr t \<and> hour t = 0)) \<and>
   New lcl 25 0 z = Inl ErrHourRange"
  by (auto simp: New_def Let_def)

theorem New_range_error_witness:
  "isl (New UTC 7 60 None) \<and> New UTC (- 1) 60 None = Inl ErrHourRange \<and>
   New UTC 7 60 None = Inl ErrMinuteRange \<and> (\<exists>t. New UTC 24 30 None = Inr t \<and> hour t = 0)"
  using New_range_error [of UTC 7 60 None] New_range_error [of UTC "- 1" 60 None]
    New_range_error [of UTC 0 30 None]
  by simp

text \<open>
  Claim C10. \<open>New 24 m zone\<close> succeeds for every minute \<open>m\<close> from 0 to 59; the hour
  stored is 0 and the minute is \<open>m\<close>, unchanged. So parsing \<open>24:09\<close> succeeds with
  hour 0 and minute 9: the hour 24 stands for 0 with any minute, not with minute 0 only.
\<close>

theorem New_24_any_minute:
  "(0 \<le> m \<and> m \<le> 59 \<longrightarrow>
      New lcl 24 m z =
        Inr \<lparr> hour = 0, minute = m, loc = (case z of None \<Rightarrow> lcl | Some l \<Rightarrow> l) \<rparr>) \<and>
   NewFromString lcl ''24:09'' z =
      Inr \<lparr> hour = 0, minute = 9, loc = (case z of None \<Rightarrow> lcl | Some l \<Rightarrow> l) \<rparr>"
proof (intro conjI impI)
  assume "0 \<le> m \<and> m \<le> 59"
  then show "New lcl 24 m z =
      Inr \<lparr> hour = 0, minute = m, loc = (case z of None \<Rightarrow> lcl | Some l \<Rightarrow> l) \<rparr>"
    by (simp add: New_hour_24)
next
  show "NewFromString lcl ''24:09'' z =
      Inr \<lparr> hour = 0, minute = 9, loc = (case z of None \<Rightarrow> lcl | Some l \<Rightarrow> l) \<rparr>"
    by (simp add: parse_eval)
qed

theorem New_24_any_minute_witness:
  "New UTC 24 59 (Some (FixedZone 3600)) = Inr \<lparr> hour = 0, minute = 59, loc = FixedZone 3600 \<rparr>"
  using New_24_any_minute [of 59 UTC "Some (FixedZone 3600)"] by simp

section \<open>Resolution of the meridiem\<close>

text \<open>
  Claim C4. With the hour and minute tokens read as the numbers \<open>h\<close> and \<open>m\<close>, \<open>Parse\<close>
  applies the meridiem to the hour and hands the result to \<open>New\<close>: without a meridiem
  the hour is unchanged; with AM, 12 becomes 0 and any other hour is unchanged; with
  PM, an hour above 12 is an error, 12 is unchanged, and any other hour has 12 added.
  (Hour 0 with a meridiem never reaches this step: claim C6.) Parsing \<open>3:09 PM\<close> gives
  what \<open>New 15 9\<close> gives, and parsing \<open>13:09 PM\<close> fails.
\<close>

theorem Parse_applies_meridiem:
  "(Atoi (tokHour tokens) = Some h \<and> Atoi (tokMinute tokens) = Some m \<longrightarrow>
      (tokMeridiem tokens = [] \<longrightarrow> Parse lcl tokens z = New lcl h m z) \<and>
      (tokMeridiem tokens = ''AM'' \<and> h \<noteq> 0 \<longrightarrow>
         Parse lcl tokens z = New lcl (if h = 12 then 0 else h) m z) \<and>
      (tokMeridiem tokens = ''PM'' \<and> h > 12 \<longrightarrow> Parse lcl tokens z = Inl ErrPMOver12) \<and>
      (tokMeridiem tokens = ''PM'' \<and> h = 12 \<longrightarrow> Parse lcl tokens z = New lcl 12 m z) \<and>
      (tokMeridiem tokens = ''PM'' \<and> h < 12 \<and> h \<noteq> 0 \<longrightarrow>
         Parse lcl tokens z = New lcl (h + 12) m z)) \<and>
   NewFromString lcl ''3:09 PM'' z = New lcl 15 9 z \<and>
   NewFromString lcl ''13:09 PM'' z = Inl ErrPMOver12"
proof (intro conjI impI)
  show "NewFromString lcl ''3:09 PM'' z = New lcl 15 9 z"
    by (simp add: parse_eval)
  show "NewFromString lcl ''13:09 PM'' z = Inl ErrPMOver12"
    by (simp add: parse_eval)
qed (auto simp: Parse_def)

theorem Parse_applies_meridiem_witness:
  "Parse UTC \<lparr>tokHour = ''3'', tokMinute = ''09'', tokMeridiem = ''PM''\<rparr> None = New UTC 15 9 None \<and>
   Parse UTC \<lparr>tokHour = ''12'', tokMinute = ''00'', tokMeridiem = ''AM''\<rparr> None = New UTC 0 0 None \<and>
   Parse UTC \<lparr>tokHour = ''12'', tokMinute = ''00'', tokMeridiem = ''PM''\<rparr> None = New UTC 12 0 None \<and>
   Parse UTC \<lparr>tokHour = ''13'', tokMinute = ''09'', tokMeridiem = ''PM''\<rparr> None = Inl ErrPMOver12 \<and>
   Parse UTC \<lparr>tokHour = ''18'', tokMinute = ''13'', tokMeridiem = []\<rparr> None = New UTC 18 13 None"
proof -
  have a: "Atoi ''3'' = Some 3" "Atoi ''09'' = Some 9" "Atoi ''12'' = Some 12"
    "Atoi ''00'' = Some 0" "Atoi ''13'' = Some 13" "Atoi ''18'' = Some 18"
    by (simp_all add: Atoi_def isDigit_def decimal_def digitVal_def)
  show ?thesis
    using
      Parse_applies_meridiem [of "\<lparr>tokHour = ''3'', tokMinute = ''09'', tokMeridiem = ''PM''\<rparr>" 3 9 UTC None]
      Parse_applies_meridiem [of "\<lparr>tokHour = ''12'', tokMinute = ''00'', tokMeridiem = ''AM''\<rparr>" 12 0 UTC None]
      Parse_applies_meridiem [of "\<lparr>tokHour = ''12'', tokMinute = ''00'', tokMeridiem = ''PM''\<rparr>" 12 0 UTC None]
      Parse_applies_meridiem [of "\<lparr>tokHour = ''13'', tokMinute = ''09'', tokMeridiem = ''PM''\<rparr>" 13 9 UTC None]
      Parse_applies_meridiem [of "\<lparr>tokHour = ''18'', tokMinute = ''13'', tokMeridiem = []\<rparr>" 18 13 UTC None]
    by (simp add: a)
qed

text \<open>
  Claim C6. When the tokens carry a meridiem and the hour token reads as 0, \<open>Parse\<close>
  fails: with the error for a meridiem beside hour 0 when the minute token is a number,
  and with the minute's own error otherwise. Parsing \<open>0:09 AM\<close> fails in this way, while
  parsing \<open>0:09\<close>, with no meridiem, succeeds.
\<close>

theorem Parse_rejects_hour_zero_with_meridiem:
  "(tokMeridiem tokens \<noteq> [] \<and> Atoi (tokHour tokens) = Some 0 \<longrightarrow>
       isl (Parse lcl tokens z) \<and>
       (Atoi (tokMinute tokens) \<noteq> None \<longrightarrow> Parse lcl tokens z = Inl ErrMeridiemHourZero)) \<and>
   NewFromString lcl ''0:09 AM'' z = Inl ErrMeridiemHourZero \<and>
   NewFromString lcl ''0:09'' z = New lcl 0 9 z \<and> \<not> isl (New lcl 0 9 z)"
proof (intro conjI impI)
  show "NewFromString lcl ''0:09 AM'' z = Inl ErrMeridiemHourZero"
    by (simp add: parse_eval)
  show "NewFromString lcl ''0:09'' z = New lcl 0 9 z"
    by (simp add: parse_eval)
  show "\<not> isl (New lcl 0 9 z)"
    by (simp add: New_def)
qed (auto simp: Parse_def split: option.splits)

theorem Parse_rejects_hour_zero_with_meridiem_witness:
  "isl (Parse UTC \<lparr>tokHour = ''00'', tokMinute = ''09'', tokMeridiem = ''PM''\<rparr> None) \<and>
   Parse UTC \<lparr>tokHour = ''00'', tokMinute = ''09'', tokMeridiem = ''PM''\<rparr> None =
     Inl ErrMeridiemHourZero"
proof -
  have a: "Atoi ''00'' = Some 0" "Atoi ''09'' = Some 9"
    by (simp_all add: Atoi_def isDigit_def decimal_def digitVal_def)
  show ?thesis
    using Parse_rejects_hour_zero_with_meridiem
      [of "\<lparr>tokHour = ''00'', tokMinute = ''09'', tokMeridiem = ''PM''\<rparr>" UTC None]
    by (simp add: a)
qed

section \<open>The calendar: from a date to the day count and back\<close>

text \<open>
  \<open>absDate\<close> inverts the day count of \<open>Date\<close>: the year, month and day it returns
  for a count of seconds are a valid date, and \<open>Date\<close> on them counts the same day.
\<close>

lemma div_bounds:
  fixes a b :: int
  assumes "0 < b"
  shows "b * (a div b) \<le> a" "a < b * (a div b) + b"
proof -
  have "a = b * (a div b) + a mod b" by simp
  moreover have "0 \<le> a mod b" "a mod b < b" using assms by simp_all
  ultimately show "b * (a div b) \<le> a" "a < b * (a div b) + b" by linarith+
qed

lemma div_eqI:
  fixes a b q :: int
  assumes "b * q \<le> a" "a < b * q + b" "0 < b"
  shows "a div b = q"
proof (rule int_div_pos_eq)
  show "a = b * q + (a - b * q)" by simp
  show "0 \<le> a - b * q" "a - b * q < b" using assms by linarith+
qed

lemma yearDay_correct:
  assumes "yearDay d = (year, yday)"
  shows "daysSinceEpoch year + yday = d"
    and "0 \<le> yday"
    and "yday < (if isLeap year then 366 else 365)"
proof -
  define n400 where "n400 = d div 146097"
  define d1 where "d1 = d - 146097 * n400"
  define n100 where "n100 = d1 div 36524"
  define c where "c = n100 - n100 div 4"
  define d2 where "d2 = d1 - 36524 * c"
  define n4 where "n4 = d2 div 1461"
  define d3 where "d3 = d2 - 1461 * n4"
  define n1 where "n1 = d3 div 365"
  define e where "e = n1 - n1 div 4"
  from assms have year: "year = 400 * n400 + 100 * c + 4 * n4 + e + 1"
    and yday: "yday = d3 - 365 * e"
    unfolding yearDay_def Let_def n400_def d1_def n100_def c_def d2_def n4_def d3_def n1_def e_def
    by simp_all
  have b1: "0 \<le> d1" "d1 < 146097"
    using div_bounds [of 146097 d] unfolding d1_def n400_def by simp_all
  have b100: "0 \<le> n100" "n100 \<le> 4" "36524 * n100 \<le> d1" "d1 < 36524 * n100 + 36524"
    using div_bounds [of 36524 d1] b1 unfolding n100_def by simp_all
  have cc: "c = (if n100 = 4 then 3 else n100)"
  proof -
    have "n100 = 0 \<or> n100 = 1 \<or> n100 = 2 \<or> n100 = 3 \<or> n100 = 4" using b100(1,2) by arith
    then show ?thesis unfolding c_def by auto
  qed
  have bc: "0 \<le> c" "c \<le> 3" using cc b100 by (auto split: if_splits)
  have b2: "0 \<le> d2" "d2 \<le> 36524" "c \<le> 2 \<longrightarrow> d2 < 36524"
    using cc b100 b1 unfolding d2_def by (auto split: if_splits)
  have b4: "0 \<le> n4" "n4 \<le> 24" "1461 * n4 \<le> d2" "d2 < 1461 * n4 + 1461"
    using div_bounds [of 1461 d2] b2 unfolding n4_def by simp_all
  have b3: "0 \<le> d3" "d3 \<le> 1460" "n4 = 24 \<and> c \<le> 2 \<longrightarrow> d3 \<le> 1459"
    using b4 b2 unfolding d3_def by auto
  have bn1: "0 \<le> n1" "n1 \<le> 4" "365 * n1 \<le> d3" "d3 < 365 * n1 + 365"
    using div_bounds [of 365 d3] b3 unfolding n1_def by simp_all
  have ee: "e = (if n1 = 4 then 3 else n1)"
  proof -
    have "n1 = 0 \<or> n1 = 1 \<or> n1 = 2 \<or> n1 = 3 \<or> n1 = 4" using bn1(1,2) by arith
    then show ?thesis unfolding e_def by auto
  qed
  have be: "0 \<le> e" "e \<le> 3" using ee bn1 by (auto split: if_splits)
  show y0: "0 \<le> yday" using yday ee bn1 by (auto split: if_splits)
  have y1: "yday \<le> 365" "e \<le> 2 \<longrightarrow> yday \<le> 364" "n4 = 24 \<and> c \<le> 2 \<longrightarrow> yday \<le> 364"
    using yday ee bn1 b3 by (auto split: if_splits)
  have q400: "(year - 1) div 400 = n400"
    by (rule div_eqI) (use year bc b4 be in simp_all)
  have q100: "(100 * c + 4 * n4 + e) div 100 = c"
    by (rule div_eqI) (use bc b4 be in simp_all)
  have q4: "(4 * n4 + e) div 4 = n4"
    by (rule div_eqI) (use bc b4 be in simp_all)
  have r1: "year - 1 - 400 * n400 = 100 * c + 4 * n4 + e" using year by simp
  have r2: "100 * c + 4 * n4 + e - 100 * c = 4 * n4 + e" by simp
  have r3: "4 * n4 + e - 4 * n4 = e" by simp
  have "daysSinceEpoch year = 146097 * n400 + 36524 * c + 1461 * n4 + 365 * e"
    unfolding daysSinceEpoch_def Let_def q400 r1 q100 r2 q4 r3 ..
  then show "daysSinceEpoch year + yday = d"
    unfolding yday d3_def d2_def d1_def by simp
  have m4: "year mod 4 = 0 \<longleftrightarrow> e = 3"
  proof -
    have "year = (e + 1) + 4 * (100 * n400 + 25 * c + n4)" using year by simp
    then have "year mod 4 = (e + 1) mod 4" by (metis mod_mult_self2)
    moreover from be have "e = 0 \<or> e = 1 \<or> e = 2 \<or> e = 3" by arith
    ultimately show ?thesis by auto
  qed
  have m100: "year mod 100 = 0 \<longleftrightarrow> e = 3 \<and> n4 = 24"
  proof -
    have "year = (4 * n4 + e + 1) + 100 * (4 * n400 + c)" using year by simp
    then have "year mod 100 = (4 * n4 + e + 1) mod 100" by (metis mod_mult_self2)
    moreover have "0 \<le> 4 * n4 + e + 1" "4 * n4 + e + 1 \<le> 100" using be b4 by simp_all
    ultimately show ?thesis using be b4
      by (cases "4 * n4 + e + 1 = 100") (auto simp: mod_pos_pos_trivial)
  qed
  have m400: "year mod 400 = 0 \<longleftrightarrow> e = 3 \<and> n4 = 24 \<and> c = 3"
  proof -
    have "year = (100 * c + 4 * n4 + e + 1) + 400 * n400" using year by simp
    then have "year mod 400 = (100 * c + 4 * n4 + e + 1) mod 400" by (metis mod_mult_self2)
    moreover have "0 \<le> 100 * c + 4 * n4 + e + 1" "100 * c + 4 * n4 + e + 1 \<le> 400"
      using be b4 bc by simp_all
    ultimately show ?thesis using be b4 bc
      by (cases "100 * c + 4 * n4 + e + 1 = 400") (auto simp: mod_pos_pos_trivial)
  qed
  have leap: "isLeap year \<longleftrightarrow> e = 3 \<and> (n4 \<noteq> 24 \<or> c = 3)"
    unfolding isLeap_def m4 m100 m400 by auto
  show "yday < (if isLeap year then 366 else 365)"
    using y1 leap be bc by auto
qed


lemma monthDay_plain:
  assumes "0 \<le> day" "day < 365" "k = day div 31"
    and eq: "(if day \<ge> daysBefore ! nat (k + 1)
          then (k + 2, day - daysBefore ! nat (k + 1) + 1)
          else (k + 1, day - daysBefore ! nat k + 1)) = (mo, d)"
  shows "1 \<le> mo \<and> mo \<le> 12 \<and> 1 \<le> d \<and> daysBefore ! nat (mo - 1) + (d - 1) = day \<and>
         (mo \<le> 2 \<longleftrightarrow> day < 59)"
proof -
  from assms(1-3) div_bounds [of 31 day]
  have k: "0 \<le> k" "k \<le> 11" "31 * k \<le> day" "day < 31 * k + 31"
    by simp_all
  from k(1,2) have "k = 0 \<or> k = 1 \<or> k = 2 \<or> k = 3 \<or> k = 4 \<or> k = 5 \<or> k = 6 \<or> k = 7
    \<or> k = 8 \<or> k = 9 \<or> k = 10 \<or> k = 11" by presburger
  then consider "k = 0" | "k = 1" | "k = 2" | "k = 3" | "k = 4" | "k = 5" | "k = 6" | "k = 7"
    | "k = 8" | "k = 9" | "k = 10" | "k = 11" by blast
  then show ?thesis
  proof cases
    case 1 with k assms(2) eq show ?thesis by (auto simp: daysBefore_def split: if_splits)
  next
    case 2 with k assms(2) eq show ?thesis by (auto simp: daysBefore_def split: if_splits)
  next
    case 3 with k assms(2) eq show ?thesis by (auto simp: daysBefore_def split: if_splits)
  next
    case 4 with k assms(2) eq show ?thesis by (auto simp: daysBefore_def split: if_splits)
  next
    case 5 with k assms(2) eq show ?thesis by (auto simp: daysBefore_def split: if_splits)
  next
    case 6 with k assms(2) eq show ?thesis by (auto simp: daysBefore_def split: if_splits)
  next
    case 7 with k assms(2) eq show ?thesis by (auto simp: daysBefore_def split: if_splits)
  next
    case 8 with k assms(2) eq show ?thesis by (auto simp: daysBefore_def split: if_splits)
  next
    case 9 with k assms(2) eq show ?thesis by (auto simp: daysBefore_def split: if_splits)
  next
    case 10 with k assms(2) eq show ?thesis by (auto simp: daysBefore_def split: if_splits)
  next
    case 11 with k assms(2) eq show ?thesis by (auto simp: daysBefore_def split: if_splits)
  next
    case 12 with k assms(2) eq show ?thesis by (auto simp: daysBefore_def split: if_splits)
  qed
qed


lemma monthDay_correct:
  assumes "0 \<le> yday" "yday < (if leap then 366 else 365)" "monthDay leap yday = (mo, d)"
  shows "1 \<le> mo \<and> mo \<le> 12 \<and> 1 \<le> d \<and>
         daysBefore ! nat (mo - 1) + (if leap \<and> mo \<ge> 3 then 1 else 0) + (d - 1) = yday"
proof (cases "leap \<and> yday = 31 + 29 - 1")
  case True
  with assms(3) have "mo = 2" "d = 29" by (simp_all add: monthDay_def)
  with True show ?thesis by (simp add: daysBefore_def)
next
  case False
  define day where "day = (if leap \<and> yday > 31 + 29 - 1 then yday - 1 else yday)"
  from assms(3) have "(if leap \<and> yday = 31 + 29 - 1 then (2, 29)
      else if day \<ge> daysBefore ! nat (day div 31 + 1)
      then (day div 31 + 2, day - daysBefore ! nat (day div 31 + 1) + 1)
      else (day div 31 + 1, day - daysBefore ! nat (day div 31) + 1)) = (mo, d)"
    unfolding monthDay_def Let_def day_def [symmetric] .
  with False have eq:
    "(if day \<ge> daysBefore ! nat (day div 31 + 1)
      then (day div 31 + 2, day - daysBefore ! nat (day div 31 + 1) + 1)
      else (day div 31 + 1, day - daysBefore ! nat (day div 31) + 1)) = (mo, d)"
    by (simp only: if_False)
  have b: "0 \<le> day" "day < 365"
    using assms(1,2) False unfolding day_def by (auto split: if_splits)
  from monthDay_plain [OF b refl eq]
  have r: "1 \<le> mo" "mo \<le> 12" "1 \<le> d" "daysBefore ! nat (mo - 1) + (d - 1) = day"
    "mo \<le> 2 \<longleftrightarrow> day < 59" by simp_all
  show ?thesis
  proof (cases "leap \<and> yday > 31 + 29 - 1")
    case True
    then have "day = yday - 1" "\<not> day < 59" by (simp_all add: day_def)
    with r True show ?thesis by simp
  next
    case F2: False
    then have dy: "day = yday" by (simp add: day_def)
    show ?thesis
    proof (cases leap)
      case True
      with F2 False have "yday < 59" by simp
      with r dy show ?thesis by simp
    next
      case False
      with r dy show ?thesis by simp
    qed
  qed
qed

lemma absDate_correct:
  assumes "absDate a = (year, mo, d)"
  shows "1 \<le> mo \<and> mo \<le> 12 \<and> 1 \<le> d \<and>
         daysSinceEpoch year + daysBefore ! nat (mo - 1)
           + (if isLeap year \<and> mo \<ge> 3 then 1 else 0) + (d - 1) = a div secondsPerDay"
proof -
  obtain y yday where yd: "yearDay (a div secondsPerDay) = (y, yday)" by (cases "yearDay (a div secondsPerDay)")
  obtain mo' d' where md: "monthDay (isLeap y) yday = (mo', d')" by (cases "monthDay (isLeap y) yday")
  from assms yd md have e: "y = year" "mo' = mo" "d' = d" by (simp_all add: absDate_def)
  from yearDay_correct [OF yd] monthDay_correct [OF _ _ md]
  show ?thesis unfolding e by simp
qed

lemma Date_wall:
  assumes "1 \<le> mo" "mo \<le> 12" "0 \<le> h" "h \<le> 23" "0 \<le> m" "m \<le> 59"
  shows "abs_sec (Date y mo d h m 0 0 l) =
           (daysSinceEpoch y + daysBefore ! nat (mo - 1)
             + (if isLeap y \<and> mo \<ge> 3 then 1 else 0) + (d - 1)) * secondsPerDay
           + h * 3600 + m * 60"
proof -
  have n1: "norm m 0 60 = (m, 0)" by (simp add: norm_def)
  have n2: "norm h m 60 = (h, m)" using assms by (simp add: norm_def)
  have n3: "norm d h 24 = (d, h)" using assms by (simp add: norm_def)
  have n4: "norm y (mo - 1) 12 = (y, mo - 1)" using assms by (simp add: norm_def)
  have n5: "norm 0 0 1000000000 = (0, 0)" by (simp add: norm_def)
  have m1: "mo - 1 + 1 = mo" by simp
  show ?thesis
    unfolding Date_def n1 n2 n3 n4 n5 Let_def prod.case m1
    by (simp add: abs_sec_def)
qed

lemma Date_of_reference:
  assumes "0 \<le> h" "h \<le> 23" "0 \<le> m" "m \<le> 59"
  shows "abs_sec (Date (Time_Year r) (Time_Month r) (Time_Day r + k) h m 0 0 l) =
           (abs_sec r div secondsPerDay + k) * secondsPerDay + h * 3600 + m * 60"
proof -
  obtain y mo d where a: "absDate (abs_sec r) = (y, mo, d)"
    by (cases "absDate (abs_sec r)")
  then have t: "Time_Year r = y" "Time_Month r = mo" "Time_Day r = d"
    by (simp_all add: Time_Year_def Time_Month_def Time_Day_def)
  from absDate_correct [OF a] have mo: "1 \<le> mo" "mo \<le> 12"
    and c: "daysSinceEpoch y + daysBefore ! nat (mo - 1)
           + (if isLeap y \<and> mo \<ge> 3 then 1 else 0) + (d - 1) = abs_sec r div secondsPerDay"
    by simp_all
  have "daysSinceEpoch y + daysBefore ! nat (mo - 1)
           + (if isLeap y \<and> mo \<ge> 3 then 1 else 0) + (d + k - 1) = abs_sec r div secondsPerDay + k"
    using c by simp
  then show ?thesis
    unfolding t Date_wall [OF mo assms] by simp
qed

section \<open>The next occurrence\<close>

text \<open>
  \<open>NextAfter\<close> takes the year, month and day of the reference as its own location shows
  them, and builds the candidate on that date in the location of the time of day. When
  the two locations are on different calendar days at the reference instant, the
  candidate is a day off, and the one comparison with the reference does not repair it.
\<close>

text \<open>
  When the reference is given in the location of the time of day, both dates agree and
  the result is right: it is not before the reference and at most 24 hours after it.
\<close>

lemma NextAfter_same_location:
  assumes t: "0 \<le> hour t" "hour t \<le> 23" "0 \<le> minute t" "minute t \<le> 59"
    and l: "location r = loc t" and ns: "0 \<le> nsec r"
  shows "\<not> Before (NextAfter t r) r \<and> \<not> Before (AddSeconds r (24 * 3600)) (NextAfter t r)"
proof -
  define D where "D = abs_sec r div secondsPerDay"
  define hm where "hm = hour t * 3600 + minute t * 60"
  define s where "s = abs_sec r - D * 86400"
  define c where
    "c k = Date (Time_Year r) (Time_Month r) (Time_Day r + k) (hour t) (minute t) 0 0 (loc t)" for k
  have s: "0 \<le> s" "s < 86400"
    using div_bounds [of 86400 "abs_sec r"] unfolding s_def D_def secondsPerDay_def by simp_all
  have hm: "0 \<le> hm" "hm \<le> 86340" using t unfolding hm_def by simp_all
  have loc: "location (c k) = loc t" for k
    unfolding c_def Date_def Let_def by (simp split: prod.splits)
  have nsec: "nsec (c k) = 0" for k
    unfolding c_def Date_def Let_def by (simp add: norm_def split: prod.splits)
  have a1: "abs_sec (c k) = unixSec (c k) + zoneOffset (loc t) + unixEpochDays * 86400" for k
    by (simp add: abs_sec_def loc secondsPerDay_def)
  have a2: "abs_sec r = unixSec r + zoneOffset (loc t) + unixEpochDays * 86400"
    by (simp add: abs_sec_def l secondsPerDay_def)
  have a3: "abs_sec (c k) = (D + k) * 86400 + hm" for k
    unfolding D_def hm_def c_def using Date_of_reference [OF t, of r k "loc t"]
    by (simp add: secondsPerDay_def)
  have a4: "abs_sec r = D * 86400 + s" by (simp add: s_def)
  have u: "unixSec (c k) - unixSec r = k * 86400 + hm - s" for k
    using a1 [of k] a2 a3 [of k] a4 by (simp add: algebra_simps)
  have c0: "c 0 = Date (Time_Year r) (Time_Month r) (Time_Day r) (hour t) (minute t) 0 0 (loc t)"
    by (simp add: c_def)
  have n: "NextAfter t r = (if Before (c 0) r then c 1 else c 0)"
    unfolding NextAfter_def Let_def c0 [symmetric] by (simp add: c_def)
  show ?thesis
  proof (cases "Before (c 0) r")
    case True
    then have le: "hm \<le> s" using u [of 0] by (auto simp: Before_def)
    from True n have r: "NextAfter t r = c 1" by simp
    from u [of 1] le hm s have "unixSec r < unixSec (c 1)" "unixSec (c 1) \<le> unixSec r + 86400"
      by simp_all
    then show ?thesis unfolding r using nsec [of 1] ns
      by (auto simp: Before_def AddSeconds_def)
  next
    case False
    with n have r: "NextAfter t r = c 0" by simp
    from False ns nsec [of 0] have "unixSec r \<le> unixSec (c 0)"
      by (auto simp: Before_def)
    moreover from u [of 0] hm s have "unixSec (c 0) < unixSec r + 86400" by simp
    ultimately show ?thesis unfolding r using nsec [of 0] ns False
      by (auto simp: Before_def AddSeconds_def)
  qed
qed

text \<open>
  Claim C1. The claim is that \<open>NextAfter t r\<close> is never before \<open>r\<close>, whatever the zones
  of \<open>r\<close> and \<open>t\<close>. Evaluated for midnight UTC, built by \<open>New 0 0 UTC\<close>, and the reference
  2000-01-01 23:30 at five hours west of UTC (Unix time 946787400): the candidate is
  2000-01-01 00:00 UTC, a day is added, and the result 2000-01-02 00:00 UTC (Unix
  time 946771200) lies four and a half hours before the reference.
\<close>

theorem NextAfter_before_reference:
  "New UTC 0 0 (Some UTC) = Inr \<lparr>hour = 0, minute = 0, loc = UTC\<rparr> \<and>
   Date 2000 1 1 23 30 0 0 (FixedZone (- 18000)) =
     \<lparr>unixSec = 946787400, nsec = 0, location = FixedZone (- 18000)\<rparr> \<and>
   NextAfter \<lparr>hour = 0, minute = 0, loc = UTC\<rparr>
       (Date 2000 1 1 23 30 0 0 (FixedZone (- 18000))) =
     \<lparr>unixSec = 946771200, nsec = 0, location = UTC\<rparr> \<and>
   Before
     (NextAfter \<lparr>hour = 0, minute = 0, loc = UTC\<rparr>
        (Date 2000 1 1 23 30 0 0 (FixedZone (- 18000))))
     (Date 2000 1 1 23 30 0 0 (FixedZone (- 18000)))"
  by code_simp

text \<open>
  Claim C2. The claim is that \<open>NextAfter t r\<close> is at most 24 hours after \<open>r\<close>. Evaluated
  for 21:00 at five hours west of UTC, parsed from \<open>21:00\<close>, and the reference
  2000-01-01 01:00 UTC (Unix time 946688400): the candidate 2000-01-01 21:00 in the
  western zone (Unix time 946778400) is not before the reference and is returned; it
  lies 25 hours after the reference, later than the reference moved on by 24 hours.
\<close>

theorem NextAfter_beyond_24h:
  "NewFromString UTC ''21:00'' (Some (FixedZone (- 18000))) =
     Inr \<lparr>hour = 21, minute = 0, loc = FixedZone (- 18000)\<rparr> \<and>
   Date 2000 1 1 1 0 0 0 UTC = \<lparr>unixSec = 946688400, nsec = 0, location = UTC\<rparr> \<and>
   NextAfter \<lparr>hour = 21, minute = 0, loc = FixedZone (- 18000)\<rparr> (Date 2000 1 1 1 0 0 0 UTC) =
     \<lparr>unixSec = 946778400, nsec = 0, location = FixedZone (- 18000)\<rparr> \<and>
   Before (AddSeconds (Date 2000 1 1 1 0 0 0 UTC) (24 * 3600))
     (NextAfter \<lparr>hour = 21, minute = 0, loc = FixedZone (- 18000)\<rparr> (Date 2000 1 1 1 0 0 0 UTC))"
  by code_simp

section \<open>The tokenizer, state by state\<close>

text \<open>
  One equation for each state of the scanner on a non-empty input, and the outcome at
  the end of the input.
\<close>

lemma tokenizeRunes_scanEnd: "tokenizeRunes rs = scanEnd 0 0 noTokens rs"
  by (simp add: tokenizeRunes_def scanEnd_def)

lemma scanEnd_Nil:
  "scanEnd st p tk [] =
     (if st = 0 \<or> st = 3 \<or> st = 4 then Inl ErrEOFNumber
      else if st = 6 then Inl ErrEOFM else Inr tk)"
  by (simp add: scanEnd_def atEnd_def)

lemma scanEnd7: "scanEnd 7 p tk (c # cs) = Inl (ErrExtraChar c)"
  by (simp add: scanEnd_def)

lemma scanEnd6:
  "scanEnd 6 p tk (c # cs) =
     (if c = CHR ''M'' then scanEnd 7 (p + 1) (tk\<lparr>tokMeridiem := tokMeridiem tk @ ''M''\<rparr>) cs
      else Inl (ErrPosition p (ErrInvalidRune c ''M'')))"
  by (simp add: scanEnd_def validRune_def wrapErrPosition_def)

lemma scanEnd5:
  "scanEnd 5 p tk (c # cs) =
     (if c = CHR '' '' then scanEnd 5 (p + 1) tk cs
      else if c = CHR ''A'' \<or> c = CHR ''P''
      then scanEnd 6 (p + 1) (tk\<lparr>tokMeridiem := tokMeridiem tk @ [c]\<rparr>) cs
      else Inl (ErrPosition p (ErrInvalidRune c '' AP'')))"
  by (simp add: scanEnd_def validRune_def wrapErrPosition_def)

lemma scanEnd4:
  "scanEnd 4 p tk (c # cs) =
     (if c \<in> set digitRunes
      then scanEnd 5 (p + 1) (tk\<lparr>tokMinute := tokMinute tk @ [c]\<rparr>) cs
      else Inl (ErrPosition p (ErrInvalidRune c digitRunes)))"
  by (simp add: scanEnd_def validRune_def wrapErrPosition_def)

lemma scanEnd3:
  "scanEnd 3 p tk (c # cs) =
     (if c \<in> set ''012345''
      then scanEnd 4 (p + 1) (tk\<lparr>tokMinute := [c]\<rparr>) cs
      else Inl (ErrPosition p (ErrInvalidRune c ''012345'')))"
  by (simp add: scanEnd_def validRune_def wrapErrPosition_def)

lemma scanEnd2:
  "scanEnd 2 p tk (c # cs) =
     (if c = CHR '':'' then scanEnd 3 (p + 1) tk cs
      else if c = CHR '' '' \<or> c = CHR ''A'' \<or> c = CHR ''P'' then scanEnd 5 p tk (c # cs)
      else Inl (ErrPosition p (ErrInvalidRune c '': AP'')))"
  by (simp add: scanEnd_def validRune_def wrapErrPosition_def)

lemma scanEnd1:
  "scanEnd 1 p tk (c # cs) =
     (if c \<in> set digitRunes
      then scanEnd 2 (p + 1) (tk\<lparr>tokHour := tokHour tk @ [c]\<rparr>) cs
      else if c = CHR '':'' \<or> c = CHR '' '' \<or> c = CHR ''A'' \<or> c = CHR ''P''
      then scanEnd 2 p tk (c # cs)
      else Inl (ErrPosition p (ErrInvalidRune c (digitRunes @ '': AP''))))"
  by (auto simp add: scanEnd_def validRune_def wrapErrPosition_def digitRunes_def)

lemma scanEnd0:
  "scanEnd 0 p tk (c # cs) =
     (if c \<in> set digitRunes
      then scanEnd 1 (p + 1) (tk\<lparr>tokHour := [c]\<rparr>) cs
      else Inl (ErrPosition p (ErrInvalidRune c digitRunes)))"
  by (simp add: scanEnd_def validRune_def wrapErrPosition_def)


lemmas scanEnd1_Suc = scanEnd1 [unfolded One_nat_def]

lemmas scanEnd_Cons = scanEnd0 scanEnd1 scanEnd1_Suc scanEnd2 scanEnd3 scanEnd4 scanEnd5 scanEnd6 scanEnd7

lemma isMinuteTokenE:
  assumes "isMinuteToken mp"
  obtains m1 m2 where "mp = [m1, m2]" "m1 \<in> set ''012345''" "m2 \<in> set digitRunes"
proof -
  from assms have l: "length mp = 2" by (simp add: isMinuteToken_def)
  then obtain m1 m2 where mp: "mp = [m1, m2]"
    by (cases mp; cases "tl mp") auto
  with assms have "m1 \<in> set ''012345''" "m2 \<in> set digitRunes"
    by (simp_all add: isMinuteToken_def)
  with mp show thesis by (rule that)
qed

lemma isHourTokenE:
  assumes "isHourToken hp"
  obtains d1 where "hp = [d1]" "d1 \<in> set digitRunes"
  | d1 d2 where "hp = [d1, d2]" "d1 \<in> set digitRunes" "d2 \<in> set digitRunes"
proof -
  from assms have l: "length hp = 1 \<or> length hp = 2" and s: "set hp \<subseteq> set digitRunes"
    by (simp_all add: isHourToken_def)
  from l show thesis
  proof
    assume "length hp = 1"
    then obtain d1 where "hp = [d1]" by (cases hp) auto
    with s that(1) show thesis by simp
  next
    assume "length hp = 2"
    then obtain d1 d2 where "hp = [d1, d2]" by (cases hp; cases "tl hp") auto
    with s that(2) show thesis by simp
  qed
qed

text \<open>
  From the text to the tokens: the tokenizer reads the text that spells a well-formed
  token triple, with any number of spaces before the meridiem, back into that triple.
\<close>

lemma scanEnd5_meridiem:
  assumes "me = [] \<or> isMeridiem me"
  shows "scanEnd 5 p tk me = Inr (tk\<lparr>tokMeridiem := tokMeridiem tk @ me\<rparr>)"
  using assms by (auto simp: isMeridiem_def scanEnd_Cons scanEnd_Nil)

lemma scanEnd5_spaces:
  "scanEnd 5 p tk (replicate n CHR '' '' @ rs) = scanEnd 5 (p + n) tk rs"
  by (induction n arbitrary: p) (simp_all add: scanEnd5)

lemma scanEnd5_tail:
  assumes "me = [] \<or> isMeridiem me"
  shows "scanEnd 5 p tk (replicate n CHR '' '' @ me) = Inr (tk\<lparr>tokMeridiem := tokMeridiem tk @ me\<rparr>)"
  by (simp add: scanEnd5_spaces scanEnd5_meridiem [OF assms])

lemma tail_cases:
  assumes "me = [] \<or> isMeridiem me"
  obtains "replicate n CHR '' '' @ me = []"
  | c cs where "replicate n CHR '' '' @ me = c # cs" "c = CHR '' '' \<or> c = CHR ''A'' \<or> c = CHR ''P''"
proof (cases n)
  case 0
  with assms that show thesis by (auto simp: isMeridiem_def)
next
  case (Suc k)
  then have "replicate n CHR '' '' @ me = CHR '' '' # (replicate k CHR '' '' @ me)" by simp
  with that(2) show thesis by blast
qed

lemma scanEnd2_tail:
  assumes "me = [] \<or> isMeridiem me"
  shows "scanEnd 2 p tk (replicate n CHR '' '' @ me) = Inr (tk\<lparr>tokMeridiem := tokMeridiem tk @ me\<rparr>)"
proof (rule tail_cases [OF assms, of n])
  assume e: "replicate n CHR '' '' @ me = []"
  then show ?thesis by (simp add: scanEnd_Nil)
next
  fix c cs
  assume e: "replicate n CHR '' '' @ me = c # cs" and c: "c = CHR '' '' \<or> c = CHR ''A'' \<or> c = CHR ''P''"
  from c have "scanEnd 2 p tk (c # cs) = scanEnd 5 p tk (c # cs)"
    by (auto simp: scanEnd2)
  then show ?thesis
    using scanEnd5_tail [OF assms, of p tk n] by (simp add: e)
qed

lemma scanEnd2_minute:
  assumes "isMinuteToken mp"
  shows "scanEnd 2 p tk (CHR '':'' # mp @ rs) = scanEnd 5 (p + 3) (tk\<lparr>tokMinute := mp\<rparr>) rs"
proof -
  from assms obtain m1 m2 where mp: "mp = [m1, m2]" and m: "m1 \<in> set ''012345''" "m2 \<in> set digitRunes"
    by (rule isMinuteTokenE)
  have "scanEnd 2 p tk (CHR '':'' # m1 # m2 # rs) = scanEnd 3 (p + 1) tk (m1 # m2 # rs)"
    by (simp add: scanEnd2)
  also have "\<dots> = scanEnd 4 (p + 2) (tk\<lparr>tokMinute := [m1]\<rparr>) (m2 # rs)"
    using m(1) by (simp add: scanEnd3)
  also have "\<dots> = scanEnd 5 (p + 3) (tk\<lparr>tokMinute := [m1, m2]\<rparr>) rs"
    using m(2) by (simp add: scanEnd4 numeral_3_eq_3)
  finally show ?thesis by (simp add: mp)
qed

lemma scanEnd2_render:
  assumes "mp = [] \<or> isMinuteToken mp" "me = [] \<or> isMeridiem me"
  shows "scanEnd 2 p tk ((if mp = [] then [] else CHR '':'' # mp) @ replicate n CHR '' '' @ me) =
           Inr (tk\<lparr>tokMinute := (if mp = [] then tokMinute tk else mp),
                    tokMeridiem := tokMeridiem tk @ me\<rparr>)"
proof (cases "mp = []")
  case True
  then show ?thesis by (simp add: scanEnd2_tail [OF assms(2)])
next
  case False
  with assms(1) have "isMinuteToken mp" by simp
  then show ?thesis
    using False by (simp add: scanEnd2_minute scanEnd5_tail [OF assms(2)])
qed

lemma scanEnd1_render:
  assumes "mp = [] \<or> isMinuteToken mp" "me = [] \<or> isMeridiem me"
  shows "scanEnd 1 p tk ((if mp = [] then [] else CHR '':'' # mp) @ replicate n CHR '' '' @ me) =
           Inr (tk\<lparr>tokMinute := (if mp = [] then tokMinute tk else mp),
                    tokMeridiem := tokMeridiem tk @ me\<rparr>)"
proof (cases "mp = []")
  case True
  show ?thesis
  proof (rule tail_cases [OF assms(2), of n])
    assume "replicate n CHR '' '' @ me = []"
    then show ?thesis using True by (simp add: scanEnd_Nil)
  next
    fix c cs
    assume e: "replicate n CHR '' '' @ me = c # cs" and c: "c = CHR '' '' \<or> c = CHR ''A'' \<or> c = CHR ''P''"
    from c have "scanEnd 1 p tk (c # cs) = scanEnd 2 p tk (c # cs)"
      by (auto simp: scanEnd1_Suc digitRunes_def)
    then show ?thesis
      using scanEnd2_tail [OF assms(2), of p tk n] True by (simp add: e)
  qed
next
  case False
  have "scanEnd 1 p tk (CHR '':'' # mp @ replicate n CHR '' '' @ me) =
        scanEnd 2 p tk (CHR '':'' # mp @ replicate n CHR '' '' @ me)"
    by (simp add: scanEnd1_Suc digitRunes_def)
  then show ?thesis
    using scanEnd2_render [OF assms, of p tk n] False by simp
qed

lemma tokenizeRunes_render:
  assumes "wellFormed tk"
  shows "tokenizeRunes (render tk n) = Inr tk"
proof -
  from assms have h: "isHourToken (tokHour tk)"
    and m: "tokMinute tk = [] \<or> isMinuteToken (tokMinute tk)"
    and e: "tokMeridiem tk = [] \<or> isMeridiem (tokMeridiem tk)"
    by (simp_all add: wellFormed_def)
  let ?rest = "(if tokMinute tk = [] then [] else CHR '':'' # tokMinute tk)
                 @ replicate n CHR '' '' @ tokMeridiem tk"
  have r: "render tk n = tokHour tk @ ?rest" by (simp add: render_def)
  from h show ?thesis
  proof (rule isHourTokenE)
    fix d1 assume hp: "tokHour tk = [d1]" and d: "d1 \<in> set digitRunes"
    have "tokenizeRunes (d1 # ?rest) = scanEnd 1 1 (noTokens\<lparr>tokHour := [d1]\<rparr>) ?rest"
      using d by (simp add: tokenizeRunes_scanEnd scanEnd0)
    also have "\<dots> = Inr tk"
      using hp scanEnd1_render [OF m e, of 1 "noTokens\<lparr>tokHour := [d1]\<rparr>" n]
      by (simp add: noTokens_def)
    finally show ?thesis by (simp add: r hp)
  next
    fix d1 d2 assume hp: "tokHour tk = [d1, d2]"
      and d: "d1 \<in> set digitRunes" "d2 \<in> set digitRunes"
    have "tokenizeRunes (d1 # d2 # ?rest) = scanEnd 2 2 (noTokens\<lparr>tokHour := [d1, d2]\<rparr>) ?rest"
      using d by (simp add: tokenizeRunes_scanEnd scanEnd0 scanEnd1_Suc noTokens_def numeral_2_eq_2)
    also have "\<dots> = Inr tk"
      using hp scanEnd2_render [OF m e, of 2 "noTokens\<lparr>tokHour := [d1, d2]\<rparr>" n]
      by (simp add: noTokens_def)
    finally show ?thesis by (simp add: r hp)
  qed
qed


text \<open>
  From the tokens to the text: what each state must have read when the scan ends well.
\<close>

lemma scanEnd7_Inr:
  assumes "scanEnd 7 p tk rs = Inr tk'"
  shows "rs = [] \<and> tk' = tk"
  using assms by (cases rs) (simp_all add: scanEnd_Nil scanEnd7)

lemma scanEnd6_Inr:
  assumes "scanEnd 6 p tk rs = Inr tk'"
  shows "rs = ''M'' \<and> tk' = tk\<lparr>tokMeridiem := tokMeridiem tk @ ''M''\<rparr>"
proof (cases rs)
  case Nil
  with assms show ?thesis by (simp add: scanEnd_Nil)
next
  case (Cons c cs)
  with assms have c: "c = CHR ''M''"
    and "scanEnd 7 (p + 1) (tk\<lparr>tokMeridiem := tokMeridiem tk @ ''M''\<rparr>) cs = Inr tk'"
    by (simp_all add: scanEnd6 split: if_splits)
  from scanEnd7_Inr [OF this(2)] c Cons show ?thesis by simp
qed

lemma scanEnd5_Inr:
  assumes "scanEnd 5 p tk rs = Inr tk'"
  shows "\<exists>n me. (me = [] \<or> isMeridiem me) \<and> rs = replicate n CHR '' '' @ me \<and>
           tk' = tk\<lparr>tokMeridiem := tokMeridiem tk @ me\<rparr>"
  using assms
proof (induction rs arbitrary: p)
  case Nil
  then have "tk' = tk" by (simp add: scanEnd_Nil)
  then have "([] = [] \<or> isMeridiem []) \<and> [] = replicate 0 CHR '' '' @ [] \<and>
             tk' = tk\<lparr>tokMeridiem := tokMeridiem tk @ []\<rparr>" by simp
  then show ?case by blast
next
  case (Cons c cs)
  show ?case
  proof (cases "c = CHR '' ''")
    case True
    with Cons.prems have "scanEnd 5 (p + 1) tk cs = Inr tk'" by (simp add: scanEnd5)
    from Cons.IH [OF this] obtain n me where
      "me = [] \<or> isMeridiem me" "cs = replicate n CHR '' '' @ me"
      "tk' = tk\<lparr>tokMeridiem := tokMeridiem tk @ me\<rparr>" by blast
    with True have "(me = [] \<or> isMeridiem me) \<and> c # cs = replicate (Suc n) CHR '' '' @ me \<and>
      tk' = tk\<lparr>tokMeridiem := tokMeridiem tk @ me\<rparr>" by simp
    then show ?thesis by blast
  next
    case False
    with Cons.prems have c: "c = CHR ''A'' \<or> c = CHR ''P''"
      and "scanEnd 6 (p + 1) (tk\<lparr>tokMeridiem := tokMeridiem tk @ [c]\<rparr>) cs = Inr tk'"
      by (simp_all add: scanEnd5 split: if_splits)
    from scanEnd6_Inr [OF this(2)] have "cs = ''M''"
      and "tk' = tk\<lparr>tokMeridiem := tokMeridiem tk @ [c, CHR ''M'']\<rparr>" by simp_all
    with c have "([c, CHR ''M''] = [] \<or> isMeridiem [c, CHR ''M'']) \<and>
      c # cs = replicate 0 CHR '' '' @ [c, CHR ''M''] \<and>
      tk' = tk\<lparr>tokMeridiem := tokMeridiem tk @ [c, CHR ''M'']\<rparr>"
      by (auto simp: isMeridiem_def)
    then show ?thesis by blast
  qed
qed

lemma scanEnd3_Inr:
  assumes "scanEnd 3 p tk rs = Inr tk'"
  shows "\<exists>mp rest. isMinuteToken mp \<and> rs = mp @ rest \<and>
           scanEnd 5 (p + 2) (tk\<lparr>tokMinute := mp\<rparr>) rest = Inr tk'"
proof -
  from assms obtain m1 r1 where rs: "rs = m1 # r1" and m1: "m1 \<in> set ''012345''"
    and s4: "scanEnd 4 (p + 1) (tk\<lparr>tokMinute := [m1]\<rparr>) r1 = Inr tk'"
    by (cases rs) (simp_all add: scanEnd_Nil scanEnd3 split: if_splits)
  from s4 obtain m2 r2 where r1: "r1 = m2 # r2" and m2: "m2 \<in> set digitRunes"
    and s5: "scanEnd 5 (p + 1 + 1) (tk\<lparr>tokMinute := [m1, m2]\<rparr>) r2 = Inr tk'"
    by (cases r1) (simp_all add: scanEnd_Nil scanEnd4 split: if_splits)
  from m1 m2 have "isMinuteToken [m1, m2]" by (simp add: isMinuteToken_def)
  moreover have "rs = [m1, m2] @ r2" by (simp add: rs r1)
  moreover from s5 have "scanEnd 5 (p + 2) (tk\<lparr>tokMinute := [m1, m2]\<rparr>) r2 = Inr tk'"
    by (simp add: numeral_2_eq_2)
  ultimately show ?thesis by blast
qed

lemma scanEnd2_Inr:
  assumes "scanEnd 2 p tk rs = Inr tk'"
  shows "\<exists>mp n me. (mp = [] \<or> isMinuteToken mp) \<and> (me = [] \<or> isMeridiem me) \<and>
           rs = (if mp = [] then [] else CHR '':'' # mp) @ replicate n CHR '' '' @ me \<and>
           tk' = tk\<lparr>tokMinute := (if mp = [] then tokMinute tk else mp),
                   tokMeridiem := tokMeridiem tk @ me\<rparr>"
proof -
  have tail: ?thesis if "scanEnd 5 p tk rs = Inr tk'"
  proof -
    from scanEnd5_Inr [OF that] obtain n me where
      "me = [] \<or> isMeridiem me" "rs = replicate n CHR '' '' @ me"
      "tk' = tk\<lparr>tokMeridiem := tokMeridiem tk @ me\<rparr>" by blast
    then have "([] = [] \<or> isMinuteToken []) \<and> (me = [] \<or> isMeridiem me) \<and>
           rs = (if [] = ([]::string) then [] else CHR '':'' # []) @ replicate n CHR '' '' @ me \<and>
           tk' = tk\<lparr>tokMinute := (if [] = ([]::string) then tokMinute tk else []),
                   tokMeridiem := tokMeridiem tk @ me\<rparr>" by simp
    then show ?thesis by blast
  qed
  show ?thesis
  proof (cases rs)
    case Nil
    with assms have "scanEnd 5 p tk rs = Inr tk'" by (simp add: scanEnd_Nil)
    then show ?thesis by (rule tail)
  next
    case (Cons c cs)
    show ?thesis
    proof (cases "c = CHR '':''")
      case True
      with assms Cons have "scanEnd 3 (p + 1) tk cs = Inr tk'" by (simp add: scanEnd2)
      from scanEnd3_Inr [OF this] obtain mp rest where mp: "isMinuteToken mp"
        and cs: "cs = mp @ rest"
        and "scanEnd 5 (p + 1 + 2) (tk\<lparr>tokMinute := mp\<rparr>) rest = Inr tk'" by blast
      from scanEnd5_Inr [OF this(3)] obtain n me where me: "me = [] \<or> isMeridiem me"
        and rest: "rest = replicate n CHR '' '' @ me"
        and tk': "tk' = tk\<lparr>tokMinute := mp, tokMeridiem := tokMeridiem tk @ me\<rparr>" by auto
      from mp have ne: "mp \<noteq> []" by (auto simp: isMinuteToken_def)
      with mp me rest tk' cs Cons True
      have "(mp = [] \<or> isMinuteToken mp) \<and> (me = [] \<or> isMeridiem me) \<and>
           rs = (if mp = [] then [] else CHR '':'' # mp) @ replicate n CHR '' '' @ me \<and>
           tk' = tk\<lparr>tokMinute := (if mp = [] then tokMinute tk else mp),
                   tokMeridiem := tokMeridiem tk @ me\<rparr>" by simp
      then show ?thesis by blast
    next
      case False
      with assms Cons have "scanEnd 5 p tk rs = Inr tk'"
        by (simp add: scanEnd2 split: if_splits)
      then show ?thesis by (rule tail)
    qed
  qed
qed

lemma tokenizeRunes_Inr:
  assumes "tokenizeRunes rs = Inr tk"
  shows "wellFormed tk \<and> (\<exists>n. rs = render tk n)"
proof -
  from assms obtain d1 r1 where rs: "rs = d1 # r1" and d1: "d1 \<in> set digitRunes"
    and s1: "scanEnd 1 1 (noTokens\<lparr>tokHour := [d1]\<rparr>) r1 = Inr tk"
    by (cases rs) (simp_all add: tokenizeRunes_scanEnd scanEnd_Nil scanEnd0 split: if_splits)
  have fin: ?thesis
    if hp: "isHourToken hp" and r: "rs = hp @ r2"
      and s2: "scanEnd 2 p (noTokens\<lparr>tokHour := hp\<rparr>) r2 = Inr tk" for hp r2 p
  proof -
    from scanEnd2_Inr [OF s2] obtain mp n me where mp: "mp = [] \<or> isMinuteToken mp"
      and me: "me = [] \<or> isMeridiem me"
      and r2: "r2 = (if mp = [] then [] else CHR '':'' # mp) @ replicate n CHR '' '' @ me"
      and tk0: "tk = (noTokens\<lparr>tokHour := hp\<rparr>)
                 \<lparr>tokMinute := (if mp = [] then tokMinute (noTokens\<lparr>tokHour := hp\<rparr>) else mp),
                  tokMeridiem := tokMeridiem (noTokens\<lparr>tokHour := hp\<rparr>) @ me\<rparr>"
      by blast
    from tk0 have tk: "tk = \<lparr>tokHour = hp, tokMinute = mp, tokMeridiem = me\<rparr>"
      by (simp add: noTokens_def)
    from hp mp me tk have "wellFormed tk" by (simp add: wellFormed_def)
    moreover from r r2 tk have "rs = render tk n" by (simp add: render_def)
    ultimately show ?thesis by blast
  qed
  show ?thesis
  proof (cases r1)
    case Nil
    with s1 have "scanEnd 2 1 (noTokens\<lparr>tokHour := [d1]\<rparr>) [] = Inr tk"
      by (simp add: scanEnd_Nil)
    moreover from d1 have "isHourToken [d1]" by (simp add: isHourToken_def)
    moreover from rs Nil have "rs = [d1] @ []" by simp
    ultimately show ?thesis by (rule fin [rotated 2])
  next
    case (Cons c cs)
    show ?thesis
    proof (cases "c \<in> set digitRunes")
      case True
      with s1 Cons have "scanEnd 2 2 (noTokens\<lparr>tokHour := [d1, c]\<rparr>) cs = Inr tk"
        by (simp add: scanEnd1_Suc numeral_2_eq_2)
      moreover from d1 True have "isHourToken [d1, c]" by (simp add: isHourToken_def)
      moreover from rs Cons have "rs = [d1, c] @ cs" by simp
      ultimately show ?thesis by (rule fin [rotated 2])
    next
      case False
      with s1 Cons have "scanEnd 2 1 (noTokens\<lparr>tokHour := [d1]\<rparr>) r1 = Inr tk"
        by (simp add: scanEnd1_Suc split: if_splits)
      moreover from d1 have "isHourToken [d1]" by (simp add: isHourToken_def)
      moreover from rs have "rs = [d1] @ r1" by simp
      ultimately show ?thesis by (rule fin [rotated 2])
    qed
  qed
qed

lemma tokenizeRunes_iff:
  "tokenizeRunes rs = Inr tk \<longleftrightarrow> wellFormed tk \<and> (\<exists>n. rs = render tk n)"
  using tokenizeRunes_Inr tokenizeRunes_render by blast

section \<open>Where the tokenizer stops\<close>

lemma scanEnd2_skip:
  assumes "c = CHR '' '' \<or> c = CHR ''A'' \<or> c = CHR ''P''"
  shows "scanEnd 2 p tk (c # cs) = scanEnd 5 p tk (c # cs)"
  using assms by (auto simp: scanEnd2)

lemma scanEnd1_skip:
  assumes "c = CHR '':'' \<or> c = CHR '' '' \<or> c = CHR ''A'' \<or> c = CHR ''P''"
  shows "scanEnd 1 p tk (c # cs) = scanEnd 2 p tk (c # cs)"
  using assms by (auto simp: scanEnd1_Suc digitRunes_def)

text \<open>After the hour token the scanner is in state 2, wherever the hour token ended.\<close>

lemma tokenizeRunes_hour:
  assumes "isHourToken hp" "rest = [] \<or> hd rest \<in> set '': AP''"
  shows "tokenizeRunes (hp @ rest) = scanEnd 2 (length hp) (noTokens\<lparr>tokHour := hp\<rparr>) rest"
  using assms(1)
proof (rule isHourTokenE)
  fix d1 assume hp: "hp = [d1]" and d: "d1 \<in> set digitRunes"
  have "tokenizeRunes (d1 # rest) = scanEnd 1 1 (noTokens\<lparr>tokHour := [d1]\<rparr>) rest"
    using d by (simp add: tokenizeRunes_scanEnd scanEnd0)
  also have "\<dots> = scanEnd 2 1 (noTokens\<lparr>tokHour := [d1]\<rparr>) rest"
  proof (cases rest)
    case Nil
    then show ?thesis by (simp add: scanEnd_Nil)
  next
    case (Cons c cs)
    with assms(2) have "c = CHR '':'' \<or> c = CHR '' '' \<or> c = CHR ''A'' \<or> c = CHR ''P''"
      by auto
    then show ?thesis unfolding Cons by (rule scanEnd1_skip)
  qed
  finally show ?thesis by (simp add: hp)
next
  fix d1 d2 assume hp: "hp = [d1, d2]"
    and d: "d1 \<in> set digitRunes" "d2 \<in> set digitRunes"
  have "tokenizeRunes (d1 # d2 # rest) = scanEnd 2 2 (noTokens\<lparr>tokHour := [d1, d2]\<rparr>) rest"
    using d by (simp add: tokenizeRunes_scanEnd scanEnd0 scanEnd1_Suc noTokens_def numeral_2_eq_2)
  then show ?thesis by (simp add: hp numeral_2_eq_2)
qed

text \<open>Up to the first letter of a meridiem.\<close>

lemma tokenizeRunes_to_meridiem:
  assumes hp: "isHourToken hp" and mp: "mp = [] \<or> isMinuteToken mp"
    and a: "a = CHR ''A'' \<or> a = CHR ''P''"
  shows "tokenizeRunes (hp @ (if mp = [] then [] else CHR '':'' # mp) @ replicate n CHR '' '' @ a # cs) =
           scanEnd 6 (length hp + (if mp = [] then 0 else 3) + n + 1)
             \<lparr>tokHour = hp, tokMinute = mp, tokMeridiem = [a]\<rparr> cs"
proof -
  let ?tail = "replicate n CHR '' '' @ a # cs"
  have t5: "scanEnd 5 p tk ?tail = scanEnd 6 (p + n + 1) (tk\<lparr>tokMeridiem := tokMeridiem tk @ [a]\<rparr>) cs"
    for p tk
    using a by (auto simp: scanEnd5_spaces scanEnd5)
  have first: "?tail = hd ?tail # tl ?tail" "hd ?tail = CHR '' '' \<or> hd ?tail = CHR ''A'' \<or> hd ?tail = CHR ''P''"
    using a by (cases n; auto)+
  show ?thesis
  proof (cases "mp = []")
    case True
    have "tokenizeRunes (hp @ ?tail) = scanEnd 2 (length hp) (noTokens\<lparr>tokHour := hp\<rparr>) ?tail"
      using first(2) by (intro tokenizeRunes_hour [OF hp]) auto
    also have "\<dots> = scanEnd 5 (length hp) (noTokens\<lparr>tokHour := hp\<rparr>) ?tail"
      using scanEnd2_skip [OF first(2), of "length hp" "noTokens\<lparr>tokHour := hp\<rparr>" "tl ?tail"] first(1)
      by simp
    finally show ?thesis using True by (simp add: t5 noTokens_def)
  next
    case False
    with mp have m: "isMinuteToken mp" by simp
    have "tokenizeRunes (hp @ CHR '':'' # mp @ ?tail) =
          scanEnd 2 (length hp) (noTokens\<lparr>tokHour := hp\<rparr>) (CHR '':'' # mp @ ?tail)"
      by (intro tokenizeRunes_hour [OF hp]) simp
    also have "\<dots> = scanEnd 5 (length hp + 3) (noTokens\<lparr>tokHour := hp, tokMinute := mp\<rparr>) ?tail"
      by (simp add: scanEnd2_minute [OF m])
    finally show ?thesis using False by (simp add: t5 noTokens_def)
  qed
qed

lemma tokenizeRunes_colon_end:
  assumes "isHourToken hp"
  shows "tokenizeRunes (hp @ '':'') = Inl ErrEOFNumber"
  by (simp add: tokenizeRunes_hour [OF assms] scanEnd2 scanEnd_Nil)

lemma tokenizeRunes_minute_tens:
  assumes "isHourToken hp"
  shows "tokenizeRunes (hp @ CHR '':'' # c # cs) =
     (if c \<in> set ''012345''
      then scanEnd 4 (length hp + 2) \<lparr>tokHour = hp, tokMinute = [c], tokMeridiem = []\<rparr> cs
      else Inl (ErrPosition (length hp + 1) (ErrInvalidRune c ''012345'')))"
  by (simp add: tokenizeRunes_hour [OF assms] scanEnd2 scanEnd3 noTokens_def)


lemma tokenizeRunes_third_hour_rune:
  assumes "d1 \<in> set digitRunes" "d2 \<in> set digitRunes" "c \<notin> set '': AP''"
  shows "tokenizeRunes (d1 # d2 # c # cs) = Inl (ErrPosition 2 (ErrInvalidRune c '': AP''))"
proof -
  have "tokenizeRunes (d1 # d2 # c # cs) =
        scanEnd 2 2 (noTokens\<lparr>tokHour := [d1, d2]\<rparr>) (c # cs)"
    using assms(1,2)
    by (simp add: tokenizeRunes_scanEnd scanEnd0 scanEnd1_Suc noTokens_def numeral_2_eq_2)
  also have "\<dots> = Inl (ErrPosition 2 (ErrInvalidRune c '': AP''))"
    using assms(3) by (simp add: scanEnd2)
  finally show ?thesis .
qed

lemma tokenizeRunes_minute_end:
  assumes "isHourToken hp" "m1 \<in> set ''012345''"
  shows "tokenizeRunes (hp @ [CHR '':'', m1]) = Inl ErrEOFNumber"
  using assms(2) by (simp add: tokenizeRunes_minute_tens [OF assms(1)] scanEnd_Nil)


lemma tokenizeRunes_meridiem_end:
  assumes "wellFormed tk" "tokMeridiem tk = []" "a = CHR ''A'' \<or> a = CHR ''P''"
  shows "tokenizeRunes (render tk n @ [a]) = Inl ErrEOFM"
proof -
  from assms(1) have "isHourToken (tokHour tk)" "tokMinute tk = [] \<or> isMinuteToken (tokMinute tk)"
    by (simp_all add: wellFormed_def)
  from tokenizeRunes_to_meridiem [OF this assms(3), of n "[]"] assms(2)
  show ?thesis by (simp add: render_def scanEnd_Nil)
qed

lemma tokenizeRunes_extra:
  assumes "wellFormed tk" "tokMeridiem tk \<noteq> []"
  shows "tokenizeRunes (render tk n @ c # cs) = Inl (ErrExtraChar c)"
proof -
  from assms have h: "isHourToken (tokHour tk)"
    and m: "tokMinute tk = [] \<or> isMinuteToken (tokMinute tk)"
    and "isMeridiem (tokMeridiem tk)"
    by (simp_all add: wellFormed_def)
  then obtain a where a: "a = CHR ''A'' \<or> a = CHR ''P''" and me: "tokMeridiem tk = [a, CHR ''M'']"
    by (auto simp: isMeridiem_def)
  from tokenizeRunes_to_meridiem [OF h m a, of n "CHR ''M'' # c # cs"] me
  show ?thesis by (simp add: render_def scanEnd6 scanEnd7)
qed

lemma digit_not_separator:
  assumes "d \<in> set digitRunes"
  shows "d \<noteq> CHR '':''" "d \<noteq> CHR '' ''" "d \<noteq> CHR ''A''" "d \<noteq> CHR ''P''"
    "d \<noteq> CHR ''M''" "d \<noteq> CHR ''-''" "d \<noteq> CHR ''+''"
  using assms by (auto simp: digitRunes_def)




lemma Atoi_Nil: "Atoi [] = None"
  by (simp add: Atoi_def)

lemma digit_value:
  assumes "d \<in> set digitRunes"
  shows "isDigit d" "0 \<le> digitVal d" "digitVal d \<le> 9"
  using assms by (auto simp: digitRunes_def isDigit_def digitVal_def)

lemma Atoi_hour_token:
  assumes "isHourToken hp"
  shows "\<exists>h. Atoi hp = Some h"
  using assms
proof (rule isHourTokenE)
  fix d1 assume hp: "hp = [d1]" and d: "d1 \<in> set digitRunes"
  from digit_value [OF d] digit_not_separator [OF d] show ?thesis
    by (simp add: hp Atoi_def decimal_def)
next
  fix d1 d2 assume hp: "hp = [d1, d2]" and d: "d1 \<in> set digitRunes" "d2 \<in> set digitRunes"
  from digit_value [OF d(1)] digit_value [OF d(2)] digit_not_separator [OF d(1)] show ?thesis
    by (simp add: hp Atoi_def decimal_def)
qed

lemma Parse_no_minute:
  assumes "isHourToken (tokHour tk)" "tokMinute tk = []"
  shows "Parse lcl tk z = Inl ErrAtoiMinute"
  using Atoi_hour_token [OF assms(1)] assms(2) by (auto simp: Parse_def Atoi_Nil)

section \<open>What the tokenizer accepts and rejects\<close>





text \<open>
  Claim C8, as amended. At the end of the input the tokenizer fails in the states that
  still need a character: on the empty input, after the colon and after one minute digit
  with the error that a number was expected, and after the first letter of a meridiem
  with the error that \<open>M\<close> was expected. Any character after a complete meridiem is
  the error for an extra character. The tokenizer succeeds exactly on the texts that
  spell a well-formed token triple: an hour token, then possibly a colon and a minute
  token, then any number of spaces, then possibly a meridiem; so the input may end after
  the first or second hour digit, after the second minute digit, after spaces, or
  after a complete meridiem. \<open>03:\<close> and \<open>03:09 PM beep\<close> both fail.
\<close>

theorem tokenizer_end_of_input:
  "tokenizeRunes [] = Inl ErrEOFNumber \<and>
   (isHourToken hp \<longrightarrow>
      tokenizeRunes (hp @ '':'') = Inl ErrEOFNumber \<and>
      (m1 \<in> set ''012345'' \<longrightarrow> tokenizeRunes (hp @ [CHR '':'', m1]) = Inl ErrEOFNumber)) \<and>
   (wellFormed tk \<and> tokMeridiem tk = [] \<and> (a = CHR ''A'' \<or> a = CHR ''P'') \<longrightarrow>
      tokenizeRunes (render tk n @ [a]) = Inl ErrEOFM) \<and>
   (wellFormed tk \<and> tokMeridiem tk \<noteq> [] \<longrightarrow>
      tokenizeRunes (render tk n @ c # cs) = Inl (ErrExtraChar c)) \<and>
   (tokenizeRunes rs = Inr tk \<longleftrightarrow> wellFormed tk \<and> (\<exists>k. rs = render tk k)) \<and>
   tokenizeTimeSpec ''03:'' = Inl ErrEOFNumber \<and>
   NewFromString lcl ''03:'' z = Inl ErrEOFNumber \<and>
   tokenizeTimeSpec ''03:09 PM beep'' = Inl (ErrExtraChar CHR '' '') \<and>
   NewFromString lcl ''03:09 PM beep'' z = Inl (ErrExtraChar CHR '' '')"
proof (intro conjI impI)
  show "tokenizeRunes [] = Inl ErrEOFNumber"
    by (simp add: tokenizeRunes_scanEnd scanEnd_Nil)
  show "tokenizeRunes rs = Inr tk \<longleftrightarrow> wellFormed tk \<and> (\<exists>k. rs = render tk k)"
    by (rule tokenizeRunes_iff)
  show "tokenizeTimeSpec ''03:'' = Inl ErrEOFNumber"
    by (simp add: tokenize_eval)
  show "NewFromString lcl ''03:'' z = Inl ErrEOFNumber"
    by (simp add: parse_eval)
  show "tokenizeTimeSpec ''03:09 PM beep'' = Inl (ErrExtraChar CHR '' '')"
    by (simp add: tokenize_eval)
  show "NewFromString lcl ''03:09 PM beep'' z = Inl (ErrExtraChar CHR '' '')"
    by (simp add: parse_eval)
next
  assume h: "isHourToken hp"
  then show "tokenizeRunes (hp @ '':'') = Inl ErrEOFNumber"
    by (rule tokenizeRunes_colon_end)
  assume "m1 \<in> set ''012345''"
  with h show "tokenizeRunes (hp @ [CHR '':'', m1]) = Inl ErrEOFNumber"
    by (rule tokenizeRunes_minute_end)
next
  assume "wellFormed tk \<and> tokMeridiem tk = [] \<and> (a = CHR ''A'' \<or> a = CHR ''P'')"
  then show "tokenizeRunes (render tk n @ [a]) = Inl ErrEOFM"
    by (elim conjE, intro tokenizeRunes_meridiem_end)
next
  assume "wellFormed tk \<and> tokMeridiem tk \<noteq> []"
  then show "tokenizeRunes (render tk n @ c # cs) = Inl (ErrExtraChar c)"
    by (elim conjE, intro tokenizeRunes_extra)
qed

theorem tokenizer_end_of_input_witness:
  "tokenizeRunes ''12:'' = Inl ErrEOFNumber \<and>
   tokenizeRunes ''12:3'' = Inl ErrEOFNumber \<and>
   tokenizeRunes ''3:09  P'' = Inl ErrEOFM \<and>
   tokenizeRunes ''12:30  AM?!'' = Inl (ErrExtraChar CHR ''?'') \<and>
   tokenizeRunes ''3:09  '' = Inr \<lparr>tokHour = ''3'', tokMinute = ''09'', tokMeridiem = []\<rparr> \<and>
   tokenizeRunes ''12:30  AM'' = Inr \<lparr>tokHour = ''12'', tokMinute = ''30'', tokMeridiem = ''AM''\<rparr>"
proof -
  let ?t1 = "\<lparr>tokHour = ''3'', tokMinute = ''09'', tokMeridiem = []\<rparr>"
  let ?t2 = "\<lparr>tokHour = ''12'', tokMinute = ''30'', tokMeridiem = ''AM''\<rparr>"
  have h: "isHourToken ''12''" by (simp add: isHourToken_def digitRunes_def)
  have w: "wellFormed ?t1" "wellFormed ?t2"
    by (simp_all add: wellFormed_def isHourToken_def isMinuteToken_def isMeridiem_def digitRunes_def)
  have r: "render ?t1 2 = ''3:09  ''" "render ?t2 2 = ''12:30  AM''"
    by code_simp+
  have e: "\<exists>k. ''3:09  '' = render ?t1 k" "\<exists>k. ''12:30  AM'' = render ?t2 k"
    using r by metis+
  show ?thesis
    using tokenizer_end_of_input [of "''12''" "CHR ''3''" ?t1 "CHR ''P''" 2 "CHR ''?''" "''!''" "''3:09  ''"]
      tokenizer_end_of_input [of "''12''" "CHR ''3''" ?t2 "CHR ''P''" 2 "CHR ''?''" "''!''" "''12:30  AM''"]
    using h w e by (simp add: r)
qed

text \<open>
  The claim as it was stated fails where it says that the scan succeeds only when the
  input ends after the second minute digit or after a complete meridiem: the inputs \<open>3\<close>
  and \<open>12\<close> end after an hour digit and are tokenized without an error (it is \<open>Parse\<close>
  that rejects their empty minute token). And a character after the complete minute token
  is not an extra character: in \<open>03:09x\<close> it is an invalid rune at position 5.
\<close>

theorem tokenizer_end_of_input_counterexample:
  "tokenizeTimeSpec ''3'' = Inr \<lparr>tokHour = ''3'', tokMinute = [], tokMeridiem = []\<rparr> \<and>
   tokenizeTimeSpec ''12'' = Inr \<lparr>tokHour = ''12'', tokMinute = [], tokMeridiem = []\<rparr> \<and>
   tokenizeTimeSpec ''03:09x'' = Inl (ErrPosition 5 (ErrInvalidRune CHR ''X'' '' AP''))"
  by code_simp

text \<open>
  Claim C9. An input that, upper-cased and trimmed, is a run of digits, any number of
  spaces and a meridiem, with no colon and no minute, is rejected by \<open>NewFromString\<close>.
  With one or two digits the tokenizer itself succeeds: it skips the minute states and
  leaves the minute token empty, and \<open>Parse\<close> then fails to read the empty minute as a
  number. (With three or more digits the tokenizer rejects the third.) So \<open>3PM\<close> and
  \<open>3 PM\<close> are errors.
\<close>

theorem bare_meridiem_rejected:
  "(ds \<noteq> [] \<and> set ds \<subseteq> set digitRunes \<and> isMeridiem me \<and>
    TrimSpace (ToUpper spec) = ds @ replicate n CHR '' '' @ me \<longrightarrow>
      isl (NewFromString lcl spec z) \<and>
      (length ds \<le> 2 \<longrightarrow>
         tokenizeTimeSpec spec = Inr \<lparr>tokHour = ds, tokMinute = [], tokMeridiem = me\<rparr> \<and>
         NewFromString lcl spec z = Inl ErrAtoiMinute)) \<and>
   NewFromString lcl ''3PM'' z = Inl ErrAtoiMinute \<and>
   NewFromString lcl ''3 PM'' z = Inl ErrAtoiMinute"
proof (intro conjI impI)
  show "NewFromString lcl ''3PM'' z = Inl ErrAtoiMinute"
    by (simp add: parse_eval)
  show "NewFromString lcl ''3 PM'' z = Inl ErrAtoiMinute"
    by (simp add: parse_eval)
next
  assume a: "ds \<noteq> [] \<and> set ds \<subseteq> set digitRunes \<and> isMeridiem me \<and>
    TrimSpace (ToUpper spec) = ds @ replicate n CHR '' '' @ me"
  let ?tk = "\<lparr>tokHour = ds, tokMinute = [], tokMeridiem = me\<rparr>"
  have short: "tokenizeTimeSpec spec = Inr ?tk \<and> NewFromString lcl spec z = Inl ErrAtoiMinute"
    if "length ds \<le> 2"
  proof -
    from a have "length ds \<noteq> 0" by simp
    with that have "length ds = 1 \<or> length ds = 2" by arith
    with a have h: "isHourToken ds" by (simp add: isHourToken_def)
    with a have "wellFormed ?tk" by (simp add: wellFormed_def)
    from tokenizeRunes_render [OF this, of n] a
    have t: "tokenizeTimeSpec spec = Inr ?tk"
      by (simp add: tokenizeTimeSpec_def render_def)
    moreover have "Parse lcl ?tk z = Inl ErrAtoiMinute"
      using h by (intro Parse_no_minute) simp_all
    ultimately show ?thesis by (simp add: NewFromString_def)
  qed
  then show "tokenizeTimeSpec spec = Inr ?tk" "NewFromString lcl spec z = Inl ErrAtoiMinute"
    if "length ds \<le> 2" using that by simp_all
  show "isl (NewFromString lcl spec z)"
  proof (cases "length ds \<le> 2")
    case True
    with short show ?thesis by simp
  next
    case False
    then obtain d1 d2 d3 r where ds: "ds = d1 # d2 # d3 # r"
      by (cases ds; cases "tl ds"; cases "tl (tl ds)") auto
    with a have d: "d1 \<in> set digitRunes" "d2 \<in> set digitRunes" "d3 \<in> set digitRunes" by auto
    from digit_not_separator [OF d(3)] have "d3 \<notin> set '': AP''" by simp
    from tokenizeRunes_third_hour_rune [OF d(1,2) this, of "r @ replicate n CHR '' '' @ me"] a
    have "tokenizeTimeSpec spec = Inl (ErrPosition 2 (ErrInvalidRune d3 '': AP''))"
      by (simp add: tokenizeTimeSpec_def ds)
    then show ?thesis by (simp add: NewFromString_def)
  qed
qed

theorem bare_meridiem_rejected_witness:
  "isl (NewFromString UTC '' 11  pm '' None) \<and>
   tokenizeTimeSpec '' 11  pm '' = Inr \<lparr>tokHour = ''11'', tokMinute = [], tokMeridiem = ''PM''\<rparr> \<and>
   NewFromString UTC '' 11  pm '' None = Inl ErrAtoiMinute"
proof -
  have t: "TrimSpace (ToUpper '' 11  pm '') = ''11'' @ replicate 2 CHR '' '' @ ''PM''"
    by code_simp
  show ?thesis
    using bare_meridiem_rejected [of "''11''" "''PM''" "'' 11  pm ''" 2 UTC None] t
    by (simp add: isMeridiem_def digitRunes_def)
qed

end
